theory Spec2Isabelle
  imports Main "HOL-Library.Word" "HOL-Library.AList"
begin

unbundle bit_operations_syntax

section \<open>The token fixture generator \<^verbatim>\<open>generate_token.py\<close>\<close>

text \<open>
  The script builds a claims dictionary for each of three hard-coded user profiles,
  signs it with PyJWT (\<^verbatim>\<open>jwt.encode(payload, JWT_SECRET, algorithm="HS256")\<close>), prints
  the tokens and writes them to \<^verbatim>\<open>test_tokens.json\<close>.

  What the script reads from its surroundings is made a parameter: the value returned by
  \<^verbatim>\<open>datetime.utcnow()\<close>, the value returned by \<^verbatim>\<open>uuid.uuid4()\<close>, and whether the
  module \<^verbatim>\<open>jwt\<close> can be imported. What it writes (standard output, standard error, the
  file system) is a record that is passed along and returned.

  Python \<^verbatim>\<open>str\<close> and \<^verbatim>\<open>bytes\<close> are both \<^typ>\<open>string\<close>: a \<^typ>\<open>char\<close> is a code point
  below 256, respectively a byte. All text the script handles is ASCII, where the two
  coincide (UTF-8 of an ASCII string is the string itself).
\<close>

subsection \<open>Python values and exceptions\<close>

datatype py_error =
    KeyError string
  | TypeError
  | ValueError
  | OverflowError
  | ImportError

text \<open>
  The values a profile field can hold: \<^verbatim>\<open>None\<close>, a \<^verbatim>\<open>bool\<close>, an \<^verbatim>\<open>int\<close>, a \<^verbatim>\<open>str\<close>,
  a \<^verbatim>\<open>list\<close> of strings (as the script's \<^verbatim>\<open>aud\<close> is), a \<^verbatim>\<open>datetime\<close>, and \<open>PObject\<close> for
  any object the JSON encoder has no rule for (\<^verbatim>\<open>bytes\<close>, a \<^verbatim>\<open>set\<close>, an instance of a
  class). Floats, dictionaries and lists of anything but strings are not modelled; in
  particular no value nests, so the encoder's recursion stays at the two levels the
  script's own payload has.
\<close>

type_synonym datetime = int

datatype pyval =
    PNone
  | PBool bool
  | PInt int
  | PStr string
  | PList "string list"
  | PDatetime datetime
  | PObject

datatype json =
    JNull
  | JBool bool
  | JInt int
  | JStr string
  | JArr "json list"
  | JObj "(string \<times> json) list"

definition sum_bind :: "'e + 'a \<Rightarrow> ('a \<Rightarrow> 'e + 'b) \<Rightarrow> 'e + 'b" where
  "sum_bind m f = (case m of Inl e \<Rightarrow> Inl e | Inr v \<Rightarrow> f v)"

text \<open>\<^verbatim>\<open>d[k]\<close> on a dictionary: \<^verbatim>\<open>KeyError(k)\<close> when the key is absent.\<close>

definition getitem :: "(string \<rightharpoonup> 'v) \<Rightarrow> string \<Rightarrow> py_error + 'v" where
  "getitem d k = (case d k of None \<Rightarrow> Inl (KeyError k) | Some v \<Rightarrow> Inr v)"

subsection \<open>\<^verbatim>\<open>datetime\<close>\<close>

text \<open>
  A naive \<^verbatim>\<open>datetime\<close> is the number of microseconds between 1970-01-01T00:00:00 and
  it, on the proleptic Gregorian calendar without leap seconds, which is the time line
  the \<^verbatim>\<open>datetime\<close> module computes on. \<^verbatim>\<open>datetime.min\<close> is 0001-01-01T00:00:00 and
  \<^verbatim>\<open>datetime.max\<close> is 9999-12-31T23:59:59.999999; an addition that leaves the range
  raises \<^verbatim>\<open>OverflowError\<close>.
\<close>

definition datetime_min :: datetime where
  "datetime_min = - 62135596800 * 1000000"

definition datetime_max :: datetime where
  "datetime_max = 253402300799 * 1000000 + 999999"

text \<open>\<^verbatim>\<open>timedelta(hours=h)\<close>, in microseconds.\<close>

definition timedelta_hours :: "int \<Rightarrow> int" where
  "timedelta_hours h = h * 3600 * 1000000"

definition datetime_add :: "datetime \<Rightarrow> int \<Rightarrow> py_error + datetime" where
  "datetime_add d td =
     (let r = d + td
      in if r < datetime_min \<or> datetime_max < r then Inl OverflowError else Inr r)"

text \<open>
  \<^verbatim>\<open>timegm(d.utctimetuple())\<close>: the time tuple of a naive datetime drops the
  microseconds, and \<^verbatim>\<open>timegm\<close> counts the whole seconds since the epoch.
\<close>

definition timegm :: "datetime \<Rightarrow> int" where
  "timegm d = d div 1000000"

subsection \<open>\<^verbatim>\<open>str(uuid)\<close>\<close>

text \<open>
  A \<^verbatim>\<open>UUID\<close> is its 128-bit integer. \<^verbatim>\<open>str\<close> prints the 32 lower-case hexadecimal
  digits of the integer, most significant first, in groups of 8, 4, 4, 4 and 12 joined
  by hyphens.
\<close>

type_synonym uuid = "128 word"

definition hexdigit :: "nat \<Rightarrow> char" where
  "hexdigit n = (if n < 10 then char_of (48 + n) else char_of (87 + n))"

fun hex_fixed :: "nat \<Rightarrow> nat \<Rightarrow> string" where
  "hex_fixed 0 n = []"
| "hex_fixed (Suc k) n = hex_fixed k (n div 16) @ [hexdigit (n mod 16)]"

definition str_uuid :: "uuid \<Rightarrow> string" where
  "str_uuid u =
     (let h = hex_fixed 32 (unat u)
      in take 8 h @ ''-'' @ take 4 (drop 8 h) @ ''-'' @ take 4 (drop 12 h) @ ''-'' @
         take 4 (drop 16 h) @ ''-'' @ drop 20 h)"

subsection \<open>\<^verbatim>\<open>json.dumps\<close>\<close>

text \<open>
  The encoder with \<^verbatim>\<open>ensure_ascii=True\<close> (the default): inside a string the quote and
  the backslash are escaped with a backslash, backspace, form feed, newline, carriage
  return and tab have their letter escapes, and every other character outside the
  printable ASCII range from space to tilde is written \<^verbatim>\<open>\uXXXX\<close> with four lower-case
  hexadecimal digits.
\<close>

definition dquote :: char where
  "dquote = CHR 0x22"

definition backslash :: char where
  "backslash = CHR 0x5C"

definition escape_char :: "char \<Rightarrow> string" where
  "escape_char c =
     (if c = dquote then [backslash, dquote]
      else if c = backslash then [backslash, backslash]
      else if c = CHR 0x08 then [backslash, CHR ''b'']
      else if c = CHR 0x0C then [backslash, CHR ''f'']
      else if c = CHR 0x0A then [backslash, CHR ''n'']
      else if c = CHR 0x0D then [backslash, CHR ''r'']
      else if c = CHR 0x09 then [backslash, CHR ''t'']
      else if (of_char c :: nat) < 32 \<or> 126 < (of_char c :: nat)
        then [backslash, CHR ''u''] @ hex_fixed 4 (of_char c)
      else [c])"

definition encode_str :: "string \<Rightarrow> string" where
  "encode_str s = [dquote] @ concat (map escape_char s) @ [dquote]"

text \<open>Decimal digits of a natural number and of an integer (\<^verbatim>\<open>int.__repr__\<close>).\<close>

fun digits_nat :: "nat \<Rightarrow> string" where
  "digits_nat n =
     (if n < 10 then [char_of (48 + n)]
      else digits_nat (n div 10) @ [char_of (48 + n mod 10)])"

definition encode_int :: "int \<Rightarrow> string" where
  "encode_int i = (if i < 0 then ''-'' @ digits_nat (nat (- i)) else digits_nat (nat i))"

text \<open>
  The encoder is parametrised as \<^verbatim>\<open>JSONEncoder\<close> is: \<open>nl lvl\<close> is the line break and
  indentation written before an item at nesting level \<open>lvl\<close> (empty when \<^verbatim>\<open>indent\<close>
  is \<^verbatim>\<open>None\<close>) and \<open>ksep\<close> the key separator; the item separator is a comma in both
  calls below. An empty list is \<^verbatim>\<open>[]\<close> and an empty dictionary \<^verbatim>\<open>{}\<close> whatever the indentation.
\<close>

fun join :: "string \<Rightarrow> string list \<Rightarrow> string" where
  "join sep [] = []"
| "join sep [x] = x"
| "join sep (x # y # ys) = x @ sep @ join sep (y # ys)"

fun encode_json :: "(nat \<Rightarrow> string) \<Rightarrow> string \<Rightarrow> nat \<Rightarrow> json \<Rightarrow> string" where
  "encode_json nl ksep lvl JNull = ''null''"
| "encode_json nl ksep lvl (JBool b) = (if b then ''true'' else ''false'')"
| "encode_json nl ksep lvl (JInt i) = encode_int i"
| "encode_json nl ksep lvl (JStr s) = encode_str s"
| "encode_json nl ksep lvl (JArr vs) =
     (if vs = [] then ''[]''
      else ''['' @ nl (Suc lvl) @
           join ('','' @ nl (Suc lvl)) (map (encode_json nl ksep (Suc lvl)) vs) @
           nl lvl @ '']'')"
| "encode_json nl ksep lvl (JObj kvs) =
     (if kvs = [] then ''{}''
      else ''{'' @ nl (Suc lvl) @
           join ('','' @ nl (Suc lvl))
             (map (\<lambda>(k, v). encode_str k @ ksep @ encode_json nl ksep (Suc lvl) v) kvs) @
           nl lvl @ ''}'')"

text \<open>\<^verbatim>\<open>json.dumps(obj, separators=(",", ":"))\<close>, as PyJWT calls it.\<close>

definition dumps_compact :: "json \<Rightarrow> string" where
  "dumps_compact v = encode_json (\<lambda>lvl. []) '':'' 0 v"

text \<open>\<^verbatim>\<open>json.dumps(obj, indent=2)\<close>: separators \<^verbatim>\<open>","\<close> and \<^verbatim>\<open>": "\<close>.\<close>

definition dumps_indent2 :: "json \<Rightarrow> string" where
  "dumps_indent2 v = encode_json (\<lambda>lvl. CHR 0x0A # replicate (2 * lvl) CHR '' '') '': '' 0 v"

text \<open>
  What the encoder makes of a Python value. An integer of more than 4300 decimal digits
  raises \<^verbatim>\<open>ValueError\<close> (the interpreter's limit on integer to string conversion); a
  value without an encoding rule raises \<^verbatim>\<open>TypeError\<close>. The first failure, left to
  right, is the one raised.
\<close>

definition int_max_str_digits :: nat where
  "int_max_str_digits = 4300"

fun collect :: "('e + 'a) list \<Rightarrow> 'e + 'a list" where
  "collect [] = Inr []"
| "collect (x # xs) =
     (case x of Inl e \<Rightarrow> Inl e
      | Inr v \<Rightarrow> (case collect xs of Inl e \<Rightarrow> Inl e | Inr vs \<Rightarrow> Inr (v # vs)))"

fun to_json :: "pyval \<Rightarrow> py_error + json" where
  "to_json PNone = Inr JNull"
| "to_json (PBool b) = Inr (JBool b)"
| "to_json (PInt i) = (if 10 ^ int_max_str_digits \<le> \<bar>i\<bar> then Inl ValueError else Inr (JInt i))"
| "to_json (PStr s) = Inr (JStr s)"
| "to_json (PList xs) = Inr (JArr (map JStr xs))"
| "to_json (PDatetime d) = Inl TypeError"
| "to_json PObject = Inl TypeError"

definition dict_to_json :: "(string \<times> pyval) list \<Rightarrow> py_error + json" where
  "dict_to_json kvs =
     map_sum id JObj (collect (map (\<lambda>(k, v). map_sum id (Pair k) (to_json v)) kvs))"

subsection \<open>Base64 for URLs, without padding\<close>

text \<open>
  PyJWT's \<^verbatim>\<open>base64url_encode\<close> is
  \<^verbatim>\<open>base64.urlsafe_b64encode(input).replace(b"=", b"")\<close>: three bytes become four
  characters of the alphabet \<^verbatim>\<open>A-Z a-z 0-9 - _\<close>, a last group of one or two bytes becomes
  two or three characters and padding, and the padding is removed.
\<close>

definition b64char :: "nat \<Rightarrow> char" where
  "b64char n =
     (if n < 26 then char_of (65 + n)
      else if n < 52 then char_of (71 + n)
      else if n < 62 then char_of (n - 4)
      else if n = 62 then CHR ''-'' else CHR ''_'')"

fun urlsafe_b64encode :: "string \<Rightarrow> string" where
  "urlsafe_b64encode [] = []"
| "urlsafe_b64encode [a] =
     (let n = of_char a * 16
      in [b64char (n div 64), b64char (n mod 64)] @ ''=='')"
| "urlsafe_b64encode [a, b] =
     (let n = (of_char a * 256 + of_char b) * 4
      in [b64char (n div 4096), b64char (n div 64 mod 64), b64char (n mod 64)] @ ''='')"
| "urlsafe_b64encode (a # b # c # r) =
     (let n = of_char a * 65536 + of_char b * 256 + of_char c
      in [b64char (n div 262144), b64char (n div 4096 mod 64), b64char (n div 64 mod 64),
          b64char (n mod 64)] @ urlsafe_b64encode r)"

definition base64url_encode :: "string \<Rightarrow> string" where
  "base64url_encode input = filter (\<lambda>c. c \<noteq> CHR ''='') (urlsafe_b64encode input)"

subsection \<open>SHA-256 and HMAC\<close>

text \<open>
  The algorithm \<^verbatim>\<open>HS256\<close> signs with HMAC (RFC 2104) over SHA-256 (FIPS 180-4), which
  PyJWT takes from \<^verbatim>\<open>hmac\<close> and \<^verbatim>\<open>hashlib\<close>.
\<close>

type_synonym u32 = "32 word"

definition sha_k :: "u32 list" where
  "sha_k =
    [0x428A2F98, 0x71374491, 0xB5C0FBCF, 0xE9B5DBA5, 0x3956C25B, 0x59F111F1, 0x923F82A4, 0xAB1C5ED5,
     0xD807AA98, 0x12835B01, 0x243185BE, 0x550C7DC3, 0x72BE5D74, 0x80DEB1FE, 0x9BDC06A7, 0xC19BF174,
     0xE49B69C1, 0xEFBE4786, 0x0FC19DC6, 0x240CA1CC, 0x2DE92C6F, 0x4A7484AA, 0x5CB0A9DC, 0x76F988DA,
     0x983E5152, 0xA831C66D, 0xB00327C8, 0xBF597FC7, 0xC6E00BF3, 0xD5A79147, 0x06CA6351, 0x14292967,
     0x27B70A85, 0x2E1B2138, 0x4D2C6DFC, 0x53380D13, 0x650A7354, 0x766A0ABB, 0x81C2C92E, 0x92722C85,
     0xA2BFE8A1, 0xA81A664B, 0xC24B8B70, 0xC76C51A3, 0xD192E819, 0xD6990624, 0xF40E3585, 0x106AA070,
     0x19A4C116, 0x1E376C08, 0x2748774C, 0x34B0BCB5, 0x391C0CB3, 0x4ED8AA4A, 0x5B9CCA4F, 0x682E6FF3,
     0x748F82EE, 0x78A5636F, 0x84C87814, 0x8CC70208, 0x90BEFFFA, 0xA4506CEB, 0xBEF9A3F7, 0xC67178F2]"

definition sha_h0 :: "u32 list" where
  "sha_h0 =
    [0x6A09E667, 0xBB67AE85, 0x3C6EF372, 0xA54FF53A, 0x510E527F, 0x9B05688C, 0x1F83D9AB, 0x5BE0CD19]"

definition big_sigma0 :: "u32 \<Rightarrow> u32" where
  "big_sigma0 x = word_rotr 2 x XOR word_rotr 13 x XOR word_rotr 22 x"

definition big_sigma1 :: "u32 \<Rightarrow> u32" where
  "big_sigma1 x = word_rotr 6 x XOR word_rotr 11 x XOR word_rotr 25 x"

definition small_sigma0 :: "u32 \<Rightarrow> u32" where
  "small_sigma0 x = word_rotr 7 x XOR word_rotr 18 x XOR drop_bit 3 x"

definition small_sigma1 :: "u32 \<Rightarrow> u32" where
  "small_sigma1 x = word_rotr 17 x XOR word_rotr 19 x XOR drop_bit 10 x"

definition ch :: "u32 \<Rightarrow> u32 \<Rightarrow> u32 \<Rightarrow> u32" where
  "ch x y z = (x AND y) XOR (NOT x AND z)"

definition maj :: "u32 \<Rightarrow> u32 \<Rightarrow> u32 \<Rightarrow> u32" where
  "maj x y z = (x AND y) XOR (x AND z) XOR (y AND z)"

text \<open>Big-endian bytes of a number, and the number of big-endian bytes.\<close>

fun be_bytes :: "nat \<Rightarrow> nat \<Rightarrow> string" where
  "be_bytes 0 n = []"
| "be_bytes (Suc k) n = be_bytes k (n div 256) @ [char_of (n mod 256)]"

definition be_word :: "string \<Rightarrow> u32" where
  "be_word bs = foldl (\<lambda>acc c. push_bit 8 acc + of_char c) 0 bs"

text \<open>
  Padding: the byte \<^verbatim>\<open>0x80\<close>, zero bytes up to 56 modulo 64, and the length of the message
  in bits as eight big-endian bytes.
\<close>

definition sha_pad :: "string \<Rightarrow> string" where
  "sha_pad msg =
     msg @ [CHR 0x80] @ replicate ((119 - length msg mod 64) mod 64) (CHR 0x00) @
     be_bytes 8 (8 * length msg)"

fun chunks :: "nat \<Rightarrow> nat \<Rightarrow> 'a list \<Rightarrow> 'a list list" where
  "chunks 0 k xs = []"
| "chunks (Suc n) k xs = take k xs # chunks n k (drop k xs)"

text \<open>The message schedule: sixteen words of the block, extended to sixty-four.\<close>

fun schedule :: "nat \<Rightarrow> u32 list \<Rightarrow> u32 list" where
  "schedule 0 w = w"
| "schedule (Suc n) w =
     (let l = length w
      in schedule n
           (w @ [small_sigma1 (w ! (l - 2)) + w ! (l - 7) + small_sigma0 (w ! (l - 15)) +
                 w ! (l - 16)]))"

fun sha_round :: "u32 list \<Rightarrow> u32 \<times> u32 \<Rightarrow> u32 list" where
  "sha_round [a, b, c, d, e, f, g, h] (k, w) =
     (let t1 = h + big_sigma1 e + ch e f g + k + w;
          t2 = big_sigma0 a + maj a b c
      in [t1 + t2, a, b, c, d + t1, e, f, g])"
| "sha_round st (k, w) = st"

definition sha_compress :: "u32 list \<Rightarrow> string \<Rightarrow> u32 list" where
  "sha_compress hs block =
     (let w = schedule 48 (map be_word (chunks 16 4 block))
      in map2 (+) hs (foldl sha_round hs (zip sha_k w)))"

definition sha256 :: "string \<Rightarrow> string" where
  "sha256 msg =
     (let p = sha_pad msg
      in concat (map (\<lambda>h. be_bytes 4 (unat h))
           (foldl sha_compress sha_h0 (chunks (length p div 64) 64 p))))"

definition xor_bytes :: "char \<Rightarrow> string \<Rightarrow> string" where
  "xor_bytes p bs = map (\<lambda>c. char_of ((of_char c :: nat) XOR of_char p)) bs"

definition hmac_sha256 :: "string \<Rightarrow> string \<Rightarrow> string" where
  "hmac_sha256 key msg =
     (let k0 = (if 64 < length key then sha256 key else key);
          k = k0 @ replicate (64 - length k0) (CHR 0x00)
      in sha256 (xor_bytes (CHR 0x5C) k @ sha256 (xor_bytes (CHR 0x36) k @ msg)))"

subsection \<open>\<^verbatim>\<open>jwt.encode\<close>\<close>

text \<open>
  PyJWT 2.x, \<^verbatim>\<open>jwt.encode(payload, key, algorithm="HS256")\<close>:
  \<^item> a \<^verbatim>\<open>datetime\<close> under \<^verbatim>\<open>exp\<close>, \<^verbatim>\<open>iat\<close> or \<^verbatim>\<open>nbf\<close> is replaced by
    \<^verbatim>\<open>timegm(value.utctimetuple())\<close>;
  \<^item> an \<^verbatim>\<open>iss\<close> that is not a string raises \<^verbatim>\<open>TypeError\<close>;
  \<^item> the payload is written with \<^verbatim>\<open>json.dumps(payload, separators=(",", ":"))\<close>, its keys in
    insertion order;
  \<^item> the header \<^verbatim>\<open>{"typ": "JWT", "alg": "HS256"}\<close> is written the same way with its keys
    sorted (releases before the sorting write \<^verbatim>\<open>typ\<close> first; nothing below reads the
    header);
  \<^item> the token is the two segments in base64 joined by a dot, a dot, and the base64 of
    the HMAC-SHA-256 of the text before that dot.
  The result is a \<^verbatim>\<open>str\<close>; the \<^verbatim>\<open>bytes\<close> that PyJWT 1.x returns are the same characters,
  which is what the script's \<^verbatim>\<open>token.decode('utf-8')\<close> turns them into.
\<close>

definition convert_time_claims :: "(string \<times> pyval) list \<Rightarrow> (string \<times> pyval) list" where
  "convert_time_claims payload =
     map (\<lambda>(k, v). (k, case v of
                          PDatetime d \<Rightarrow> if k \<in> {''exp'', ''iat'', ''nbf''} then PInt (timegm d) else v
                        | _ \<Rightarrow> v)) payload"

definition jwt_header :: json where
  "jwt_header = JObj [(''alg'', JStr ''HS256''), (''typ'', JStr ''JWT'')]"

definition jwt_encode :: "(string \<times> pyval) list \<Rightarrow> string \<Rightarrow> py_error + string" where
  "jwt_encode payload key =
     (let payload' = convert_time_claims payload
      in if (case map_of payload' ''iss'' of None \<Rightarrow> False | Some (PStr s) \<Rightarrow> False | Some v \<Rightarrow> True)
         then Inl TypeError
         else sum_bind (dict_to_json payload') (\<lambda>j.
           let json_payload = dumps_compact j;
               signing_input =
                 base64url_encode (dumps_compact jwt_header) @ ''.'' @ base64url_encode json_payload;
               signature = hmac_sha256 key signing_input
           in Inr (signing_input @ ''.'' @ base64url_encode signature)))"

subsection \<open>\<^verbatim>\<open>generate_token\<close>\<close>

definition JWT_SECRET :: string where
  "JWT_SECRET = ''your-super-secret-jwt-key-change-this-in-production''"

definition JWT_ISSUER :: string where
  "JWT_ISSUER = ''ga-ticketing-system''"

text \<open>
  \<open>now\<close> is what \<^verbatim>\<open>datetime.utcnow()\<close> returns and \<open>u\<close> what \<^verbatim>\<open>uuid.uuid4()\<close> returns in
  this call. The statements run in the source's order: the expiry is computed first, then
  the dictionary display looks the six fields up from top to bottom, so the first missing
  key is the one in the \<^verbatim>\<open>KeyError\<close>.
\<close>

definition generate_token ::
    "datetime \<Rightarrow> uuid \<Rightarrow> (string \<rightharpoonup> pyval) \<Rightarrow> py_error + string" where
  "generate_token now u user_info =
     sum_bind (datetime_add now (timedelta_hours 24)) (\<lambda>expires_at.
     sum_bind (getitem user_info ''id'') (\<lambda>v_user_id.
     sum_bind (getitem user_info ''employee_id'') (\<lambda>v_employee_id.
     sum_bind (getitem user_info ''name'') (\<lambda>v_name.
     sum_bind (getitem user_info ''email'') (\<lambda>v_email.
     sum_bind (getitem user_info ''role'') (\<lambda>v_role.
     sum_bind (getitem user_info ''department'') (\<lambda>v_department.
     sum_bind (getitem user_info ''id'') (\<lambda>v_sub.
       jwt_encode
         [(''user_id'', v_user_id),
          (''employee_id'', v_employee_id),
          (''name'', v_name),
          (''email'', v_email),
          (''role'', v_role),
          (''department'', v_department),
          (''jti'', PStr (str_uuid u)),
          (''iss'', PStr JWT_ISSUER),
          (''sub'', v_sub),
          (''aud'', PList [''ga-ticketing-client'']),
          (''exp'', PDatetime expires_at),
          (''nbf'', PDatetime now),
          (''iat'', PDatetime now)]
         JWT_SECRET))))))))"

subsection \<open>Reading a token back\<close>

text \<open>
  The decoded claims of a token are what a reader gets who splits the token at the dots,
  takes the middle segment out of base64 and parses the JSON text. The three functions
  below do that. They are not part of the script: they say what the decoded payload of a
  token is. The base64 reader refuses a character outside the alphabet; the JSON reader
  accepts white space between tokens, integers but no fractions or exponents, and keeps
  the members of an object in the order of the text.
\<close>

fun split_on :: "char \<Rightarrow> string \<Rightarrow> string list" where
  "split_on c [] = [[]]"
| "split_on c (x # xs) =
     (if x = c then [] # split_on c xs
      else (case split_on c xs of [] \<Rightarrow> [[x]] | y # ys \<Rightarrow> (x # y) # ys))"

definition b64val :: "char \<Rightarrow> nat option" where
  "b64val c =
     (let n = (of_char c :: nat)
      in if 65 \<le> n \<and> n \<le> 90 then Some (n - 65)
         else if 97 \<le> n \<and> n \<le> 122 then Some (n - 71)
         else if 48 \<le> n \<and> n \<le> 57 then Some (n + 4)
         else if c = CHR ''-'' then Some 62
         else if c = CHR ''_'' then Some 63
         else None)"

fun b64vals :: "string \<Rightarrow> nat list option" where
  "b64vals [] = Some []"
| "b64vals (c # cs) =
     (case b64val c of None \<Rightarrow> None
      | Some v \<Rightarrow> (case b64vals cs of None \<Rightarrow> None | Some vs \<Rightarrow> Some (v # vs)))"

fun b64bytes :: "nat list \<Rightarrow> string option" where
  "b64bytes [] = Some []"
| "b64bytes [x] = None"
| "b64bytes [x, y] = Some [char_of ((x * 64 + y) div 16)]"
| "b64bytes [x, y, z] =
     (let n = x * 4096 + y * 64 + z
      in Some [char_of (n div 1024), char_of (n div 4 mod 256)])"
| "b64bytes (x # y # z # w # r) =
     (let n = x * 262144 + y * 4096 + z * 64 + w
      in case b64bytes r of None \<Rightarrow> None
         | Some bs \<Rightarrow>
             Some (char_of (n div 65536) # char_of (n div 256 mod 256) # char_of (n mod 256) # bs))"

definition base64url_decode :: "string \<Rightarrow> string option" where
  "base64url_decode s = (case b64vals s of None \<Rightarrow> None | Some vs \<Rightarrow> b64bytes vs)"

definition is_ws :: "char \<Rightarrow> bool" where
  "is_ws c \<longleftrightarrow> c = CHR '' '' \<or> c = CHR 0x0A \<or> c = CHR 0x0D \<or> c = CHR 0x09"

definition is_digit :: "char \<Rightarrow> bool" where
  "is_digit c \<longleftrightarrow> 48 \<le> (of_char c :: nat) \<and> (of_char c :: nat) \<le> 57"

definition skip_ws :: "string \<Rightarrow> string" where
  "skip_ws s = dropWhile is_ws s"

definition hexval :: "char \<Rightarrow> nat option" where
  "hexval c =
     (let n = (of_char c :: nat)
      in if 48 \<le> n \<and> n \<le> 57 then Some (n - 48)
         else if 97 \<le> n \<and> n \<le> 102 then Some (n - 87)
         else if 65 \<le> n \<and> n \<le> 70 then Some (n - 55)
         else None)"

definition unescape :: "char \<Rightarrow> char option" where
  "unescape e =
     (if e = dquote then Some dquote
      else if e = backslash then Some backslash
      else if e = CHR ''/'' then Some CHR ''/''
      else if e = CHR ''b'' then Some (CHR 0x08)
      else if e = CHR ''f'' then Some (CHR 0x0C)
      else if e = CHR ''n'' then Some (CHR 0x0A)
      else if e = CHR ''r'' then Some (CHR 0x0D)
      else if e = CHR ''t'' then Some (CHR 0x09)
      else None)"

definition cons_fst :: "'a \<Rightarrow> ('a list \<times> 'b) option \<Rightarrow> ('a list \<times> 'b) option" where
  "cons_fst x r = map_option (\<lambda>(xs, t). (x # xs, t)) r"

text \<open>The characters of a string after its opening quote, up to the closing quote.\<close>

fun parse_chars :: "string \<Rightarrow> (string \<times> string) option" where
  "parse_chars [] = None"
| "parse_chars (c # cs) =
     (if c = dquote then Some ([], cs)
      else if c = backslash then
        (case cs of
           [] \<Rightarrow> None
         | e # r \<Rightarrow>
             if e = CHR ''u'' then
               (case r of
                  h1 # h2 # h3 # h4 # r' \<Rightarrow>
                    (case (hexval h1, hexval h2, hexval h3, hexval h4) of
                       (Some a, Some b, Some c, Some d) \<Rightarrow>
                         (let n = ((a * 16 + b) * 16 + c) * 16 + d
                          in if n < 256 then cons_fst (char_of n) (parse_chars r') else None)
                     | _ \<Rightarrow> None)
                | _ \<Rightarrow> None)
             else (case unescape e of
                     None \<Rightarrow> None
                   | Some x \<Rightarrow> cons_fst x (parse_chars r)))
      else if (of_char c :: nat) < 32 then None
      else cons_fst c (parse_chars cs))"

definition nat_of_digits :: "string \<Rightarrow> nat" where
  "nat_of_digits ds = foldl (\<lambda>acc c. 10 * acc + (of_char c - 48)) 0 ds"

definition parse_nat :: "string \<Rightarrow> (nat \<times> string) option" where
  "parse_nat s =
     (let ds = takeWhile is_digit s
      in if ds = [] then None else Some (nat_of_digits ds, dropWhile is_digit s))"

definition parse_int :: "string \<Rightarrow> (int \<times> string) option" where
  "parse_int s =
     (case s of
        [] \<Rightarrow> None
      | c # r \<Rightarrow>
          if c = CHR ''-'' then map_option (\<lambda>(n, t). (- int n, t)) (parse_nat r)
          else map_option (\<lambda>(n, t). (int n, t)) (parse_nat s))"

text \<open>
  The value parser counts its recursive calls down from a bound; \<open>json_loads\<close> starts it
  with the length of the text, which is enough for every text the encoder above writes
  (\<open>json_loads_encode\<close> below).
\<close>

fun parse_value :: "nat \<Rightarrow> string \<Rightarrow> (json \<times> string) option"
  and parse_elems :: "nat \<Rightarrow> string \<Rightarrow> (json list \<times> string) option"
  and parse_members :: "nat \<Rightarrow> string \<Rightarrow> ((string \<times> json) list \<times> string) option" where
  "parse_value 0 s = None"
| "parse_value (Suc n) s =
     (case skip_ws s of
        [] \<Rightarrow> None
      | c # r \<Rightarrow>
          if c = dquote then map_option (\<lambda>(x, t). (JStr x, t)) (parse_chars r)
          else if c = CHR ''['' then
            (case skip_ws r of
               [] \<Rightarrow> None
             | c' # r' \<Rightarrow>
                 if c' = CHR '']'' then Some (JArr [], r')
                 else map_option (\<lambda>(vs, t). (JArr vs, t)) (parse_elems n r))
          else if c = CHR ''{'' then
            (case skip_ws r of
               [] \<Rightarrow> None
             | c' # r' \<Rightarrow>
                 if c' = CHR ''}'' then Some (JObj [], r')
                 else map_option (\<lambda>(kvs, t). (JObj kvs, t)) (parse_members n r))
          else if take 4 (c # r) = ''true'' then Some (JBool True, drop 3 r)
          else if take 5 (c # r) = ''false'' then Some (JBool False, drop 4 r)
          else if take 4 (c # r) = ''null'' then Some (JNull, drop 3 r)
          else map_option (\<lambda>(i, t). (JInt i, t)) (parse_int (c # r)))"
| "parse_elems 0 s = None"
| "parse_elems (Suc n) s =
     (case parse_value n s of
        None \<Rightarrow> None
      | Some (v, r) \<Rightarrow>
          (case skip_ws r of
             [] \<Rightarrow> None
           | c # r' \<Rightarrow>
               if c = CHR '','' then cons_fst v (parse_elems n r')
               else if c = CHR '']'' then Some ([v], r')
               else None))"
| "parse_members 0 s = None"
| "parse_members (Suc n) s =
     (case skip_ws s of
        [] \<Rightarrow> None
      | c # r \<Rightarrow>
          if c \<noteq> dquote then None
          else
            (case parse_chars r of
               None \<Rightarrow> None
             | Some (k, r1) \<Rightarrow>
                 (case skip_ws r1 of
                    [] \<Rightarrow> None
                  | c1 # r2 \<Rightarrow>
                      if c1 \<noteq> CHR '':'' then None
                      else
                        (case parse_value n r2 of
                           None \<Rightarrow> None
                         | Some (v, r3) \<Rightarrow>
                             (case skip_ws r3 of
                                [] \<Rightarrow> None
                              | c3 # r4 \<Rightarrow>
                                  if c3 = CHR '','' then cons_fst (k, v) (parse_members n r4)
                                  else if c3 = CHR ''}'' then Some ([(k, v)], r4)
                                  else None)))))"

definition json_loads :: "string \<Rightarrow> json option" where
  "json_loads s =
     (case parse_value (length s) s of
        None \<Rightarrow> None
      | Some (v, r) \<Rightarrow> if skip_ws r = [] then Some v else None)"

definition decode_payload :: "string \<Rightarrow> json option" where
  "decode_payload token =
     (case split_on CHR ''.'' token of
        [h, p, sg] \<Rightarrow> (case base64url_decode p of None \<Rightarrow> None | Some txt \<Rightarrow> json_loads txt)
      | _ \<Rightarrow> None)"

text \<open>The value of one claim of a token, when the token decodes to an object that has it.\<close>

definition claim :: "string \<Rightarrow> string \<Rightarrow> json option" where
  "claim k token =
     (case decode_payload token of Some (JObj kvs) \<Rightarrow> map_of kvs k | _ \<Rightarrow> None)"

subsection \<open>\<^verbatim>\<open>main\<close> and the script\<close>

text \<open>
  The surroundings of a run: \<open>utcnow i\<close> and \<open>uuid4 i\<close> are what the \<open>i\<close>-th call
  (counting from 0) of \<^verbatim>\<open>datetime.utcnow()\<close> and of \<^verbatim>\<open>uuid.uuid4()\<close> returns, and
  \<open>jwt_installed\<close> says whether \<^verbatim>\<open>import jwt\<close> finds the module. The world a run changes
  is the list of lines printed on standard output and the content of the files. Writing
  to standard output and to the working directory is taken to succeed.
\<close>

record env =
  utcnow :: "nat \<Rightarrow> datetime"
  uuid4 :: "nat \<Rightarrow> uuid"
  jwt_installed :: bool

record world =
  stdout :: "string list"
  files :: "string \<rightharpoonup> string"

definition print_line :: "world \<Rightarrow> string \<Rightarrow> world" where
  "print_line w l = w\<lparr>stdout := stdout w @ [l]\<rparr>"

text \<open>\<^verbatim>\<open>str.upper\<close> on ASCII text, which the role names are.\<close>

definition upper :: "string \<Rightarrow> string" where
  "upper s =
     map (\<lambda>c. if 97 \<le> (of_char c :: nat) \<and> (of_char c :: nat) \<le> 122
                then char_of ((of_char c :: nat) - 32) else c) s"

definition users :: "(string \<times> (string \<times> string) list) list" where
  "users =
    [(''requester'',
       [(''id'', ''req-001''),
        (''employee_id'', ''EMP001''),
        (''name'', ''John Requester''),
        (''email'', ''john.requester@company.com''),
        (''role'', ''requester''),
        (''department'', ''IT'')]),
     (''approver'',
       [(''id'', ''app-001''),
        (''employee_id'', ''EMP002''),
        (''name'', ''Jane Approver''),
        (''email'', ''jane.approver@company.com''),
        (''role'', ''approver''),
        (''department'', ''Finance'')]),
     (''admin'',
       [(''id'', ''adm-001''),
        (''employee_id'', ''EMP003''),
        (''name'', ''Admin User''),
        (''email'', ''admin@company.com''),
        (''role'', ''admin''),
        (''department'', ''GA'')])]"

text \<open>A profile of the table as the dictionary \<open>generate_token\<close> receives.\<close>

definition profile_of :: "(string \<times> string) list \<Rightarrow> (string \<rightharpoonup> pyval)" where
  "profile_of kvs = map_option PStr \<circ> map_of kvs"

text \<open>
  The loop of \<^verbatim>\<open>main\<close> over \<^verbatim>\<open>users.items()\<close>; \<open>i\<close> counts the iterations, and
  \<open>tokens\<close> is the dictionary filled so far, in insertion order. An exception leaves the
  loop with the world as it is at that point.
\<close>

fun token_loop ::
    "env \<Rightarrow> nat \<Rightarrow> (string \<times> (string \<times> string) list) list \<Rightarrow> (string \<times> string) list \<Rightarrow> world
      \<Rightarrow> (py_error + (string \<times> string) list) \<times> world" where
  "token_loop e i [] tokens w = (Inr tokens, w)"
| "token_loop e i ((role, user_info) # rest) tokens w =
     (case generate_token (utcnow e i) (uuid4 e i) (profile_of user_info) of
        Inl err \<Rightarrow> (Inl err, w)
      | Inr token \<Rightarrow>
          (let tokens' = AList.update role token tokens;
               w1 = print_line w (upper role @ '' USER:'')
           in case getitem (map_of user_info) ''name'' of
                Inl err \<Rightarrow> (Inl err, w1)
              | Inr v_name \<Rightarrow>
                  (let w2 = print_line w1 (''  Name: '' @ v_name)
                   in case getitem (map_of user_info) ''email'' of
                        Inl err \<Rightarrow> (Inl err, w2)
                      | Inr v_email \<Rightarrow>
                          (let w3 = print_line w2 (''  Email: '' @ v_email)
                           in case getitem (map_of user_info) ''role'' of
                                Inl err \<Rightarrow> (Inl err, w3)
                              | Inr v_role \<Rightarrow>
                                  (let w4 = print_line w3 (''  Role: '' @ v_role);
                                       w5 = print_line w4 (''  Token: '' @ token);
                                       w6 = print_line w5 []
                                   in token_loop e (Suc i) rest tokens' w6)))))"

definition tokens_json :: "(string \<times> string) list \<Rightarrow> json" where
  "tokens_json tokens = JObj (map (\<lambda>(k, t). (k, JStr t)) tokens)"

definition main :: "env \<Rightarrow> world \<Rightarrow> (py_error + unit) \<times> world" where
  "main e w =
     (let w1 = print_line w ''GA Ticketing System - JWT Token Generator'';
          w2 = print_line w1 (replicate 50 CHR ''='');
          w3 = print_line w2 []
      in case token_loop e 0 users [] w3 of
           (Inl err, w4) \<Rightarrow> (Inl err, w4)
         | (Inr tokens, w4) \<Rightarrow>
             (let w5 = w4\<lparr>files := (files w4)(''test_tokens.json'' \<mapsto> dumps_indent2 (tokens_json tokens))\<rparr>;
                  w6 = print_line w5 ''Tokens saved to: test_tokens.json'';
                  w7 = print_line w6 [];
                  w8 = print_line w7 ''Usage examples:''
              in case getitem (map_of tokens) ''requester'' of
                   Inl err \<Rightarrow> (Inl err, w8)
                 | Inr t1 \<Rightarrow>
                     (let w9 = print_line w8 (''export REQUESTER_TOKEN='' @ [dquote] @ t1 @ [dquote])
                      in case getitem (map_of tokens) ''approver'' of
                           Inl err \<Rightarrow> (Inl err, w9)
                         | Inr t2 \<Rightarrow>
                             (let w10 = print_line w9 (''export APPROVER_TOKEN='' @ [dquote] @ t2 @ [dquote])
                              in case getitem (map_of tokens) ''admin'' of
                                   Inl err \<Rightarrow> (Inl err, w10)
                                 | Inr t3 \<Rightarrow>
                                     (Inr (),
                                      print_line w10
                                        (''export ADMIN_TOKEN='' @ [dquote] @ t3 @ [dquote]))))))"

text \<open>
  The script from its first line. How the process ends: \<open>Exit n\<close> is a call of
  \<^verbatim>\<open>exit(n)\<close> or the normal end (\<open>n = 0\<close>); \<open>Uncaught err\<close> is an exception nobody
  handles, for which the interpreter writes a traceback on standard error and ends the
  process with status 1.

  Line 7, \<^verbatim>\<open>import jwt\<close>, runs when the module is loaded, before the guarded block at the
  end of the file, whose \<^verbatim>\<open>try\<close> imports the module a second time.
\<close>

datatype outcome = Exit nat | Uncaught py_error

fun exit_status :: "outcome \<Rightarrow> nat" where
  "exit_status (Exit n) = n"
| "exit_status (Uncaught err) = 1"

definition import_jwt :: "env \<Rightarrow> py_error + unit" where
  "import_jwt e = (if jwt_installed e then Inr () else Inl ImportError)"

definition run_script :: "env \<Rightarrow> world \<Rightarrow> outcome \<times> world" where
  "run_script e w =
     (case import_jwt e of
        Inl err \<Rightarrow> (Uncaught err, w)
      | Inr _ \<Rightarrow>
          (case import_jwt e of
             Inl err \<Rightarrow>
               (Exit 1,
                print_line (print_line w ''Error: PyJWT is not installed.'')
                  ''Install it with: pip install PyJWT'')
           | Inr _ \<Rightarrow>
               (case main e w of
                  (Inl err, w') \<Rightarrow> (Uncaught err, w')
                | (Inr _, w') \<Rightarrow> (Exit 0, w'))))"

subsection \<open>\<^verbatim>\<open>generate_token\<close> as a step of the process\<close>

text \<open>
  The same function with its effects written out. The state of the process is the world
  (standard output and the files) together with the number of clock readings and of UUID
  draws made so far; \<open>utcnow e n\<close> is what reading number \<open>n\<close> returns and \<open>uuid4 e n\<close> what
  draw number \<open>n\<close> returns. The statements run in the source's order: the clock is read,
  the expiry is computed, the dictionary display looks up the six fields, then draws the
  UUID, then looks up \<^verbatim>\<open>id\<close> once more, and \<^verbatim>\<open>jwt.encode\<close> is called last. An exception
  leaves the state as it is at that point. In the loop of \<open>main\<close> every call reads the clock
  once and draws once, so the call of iteration \<open>i\<close> gets reading and draw number \<open>i\<close>.
\<close>

record process = world +
  clock_reads :: nat
  uuid_draws :: nat

definition datetime_utcnow :: "env \<Rightarrow> process \<Rightarrow> datetime \<times> process" where
  "datetime_utcnow e s = (utcnow e (clock_reads s), s\<lparr>clock_reads := Suc (clock_reads s)\<rparr>)"

definition uuid_uuid4 :: "env \<Rightarrow> process \<Rightarrow> uuid \<times> process" where
  "uuid_uuid4 e s = (uuid4 e (uuid_draws s), s\<lparr>uuid_draws := Suc (uuid_draws s)\<rparr>)"

definition generate_token_call ::
    "env \<Rightarrow> (string \<rightharpoonup> pyval) \<Rightarrow> process \<Rightarrow> (py_error + string) \<times> process" where
  "generate_token_call e user_info s =
     (case datetime_utcnow e s of (now, s1) \<Rightarrow>
      case datetime_add now (timedelta_hours 24) of
        Inl err \<Rightarrow> (Inl err, s1)
      | Inr expires_at \<Rightarrow>
      case getitem user_info ''id'' of
        Inl err \<Rightarrow> (Inl err, s1)
      | Inr v_user_id \<Rightarrow>
      case getitem user_info ''employee_id'' of
        Inl err \<Rightarrow> (Inl err, s1)
      | Inr v_employee_id \<Rightarrow>
      case getitem user_info ''name'' of
        Inl err \<Rightarrow> (Inl err, s1)
      | Inr v_name \<Rightarrow>
      case getitem user_info ''email'' of
        Inl err \<Rightarrow> (Inl err, s1)
      | Inr v_email \<Rightarrow>
      case getitem user_info ''role'' of
        Inl err \<Rightarrow> (Inl err, s1)
      | Inr v_role \<Rightarrow>
      case getitem user_info ''department'' of
        Inl err \<Rightarrow> (Inl err, s1)
      | Inr v_department \<Rightarrow>
      case uuid_uuid4 e s1 of (u, s2) \<Rightarrow>
      case getitem user_info ''id'' of
        Inl err \<Rightarrow> (Inl err, s2)
      | Inr v_sub \<Rightarrow>
        (jwt_encode
           [(''user_id'', v_user_id),
            (''employee_id'', v_employee_id),
            (''name'', v_name),
            (''email'', v_email),
            (''role'', v_role),
            (''department'', v_department),
            (''jti'', PStr (str_uuid u)),
            (''iss'', PStr JWT_ISSUER),
            (''sub'', v_sub),
            (''aud'', PList [''ga-ticketing-client'']),
            (''exp'', PDatetime expires_at),
            (''nbf'', PDatetime now),
            (''iat'', PDatetime now)]
           JWT_SECRET, s2))"

subsection \<open>Notions used to state and prove the properties\<close>

text \<open>
  \<open>clock_ok now\<close>: the expiry \<open>now + 24 h\<close> is a \<^verbatim>\<open>datetime\<close>, so that
  \<^verbatim>\<open>now + timedelta(hours=24)\<close> does not raise. Every clock reading before
  9999-12-31T00:00:00 is one.
\<close>

definition clock_ok :: "datetime \<Rightarrow> bool" where
  "clock_ok now \<longleftrightarrow>
     datetime_min \<le> now + timedelta_hours 24 \<and> now + timedelta_hours 24 \<le> datetime_max"

text \<open>
  The dictionary \<^verbatim>\<open>payload\<close> of \<open>generate_token\<close> for given field values, the JSON object
  it is written as, and the token PyJWT makes of a JSON object.
\<close>

definition payload_of ::
    "datetime \<Rightarrow> uuid \<Rightarrow> pyval \<Rightarrow> pyval \<Rightarrow> pyval \<Rightarrow> pyval \<Rightarrow> pyval \<Rightarrow> pyval \<Rightarrow> (string \<times> pyval) list" where
  "payload_of now u v1 v2 v3 v4 v5 v6 =
         [(''user_id'', v1),
          (''employee_id'', v2),
          (''name'', v3),
          (''email'', v4),
          (''role'', v5),
          (''department'', v6),
          (''jti'', PStr (str_uuid u)),
          (''iss'', PStr JWT_ISSUER),
          (''sub'', v1),
          (''aud'', PList [''ga-ticketing-client'']),
          (''exp'', PDatetime (now + timedelta_hours 24)),
          (''nbf'', PDatetime now),
          (''iat'', PDatetime now)]"

definition token_claims ::
    "datetime \<Rightarrow> uuid \<Rightarrow> json \<Rightarrow> json \<Rightarrow> json \<Rightarrow> json \<Rightarrow> json \<Rightarrow> json \<Rightarrow> json" where
  "token_claims now u j_id j_employee_id j_name j_email j_role j_department =
     JObj [(''user_id'', j_id),
           (''employee_id'', j_employee_id),
           (''name'', j_name),
           (''email'', j_email),
           (''role'', j_role),
           (''department'', j_department),
           (''jti'', JStr (str_uuid u)),
           (''iss'', JStr JWT_ISSUER),
           (''sub'', j_id),
           (''aud'', JArr [JStr ''ga-ticketing-client'']),
           (''exp'', JInt (timegm now + 86400)),
           (''nbf'', JInt (timegm now)),
           (''iat'', JInt (timegm now))]"

definition compact_jws :: "json \<Rightarrow> string \<Rightarrow> string" where
  "compact_jws j key =
     (let signing_input =
            base64url_encode (dumps_compact jwt_header) @ ''.'' @ base64url_encode (dumps_compact j)
      in signing_input @ ''.'' @ base64url_encode (hmac_sha256 key signing_input))"

text \<open>
  The \<open>i\<close>-th profile of the table as a dictionary, the result of the \<open>i\<close>-th call of
  \<open>generate_token\<close> in a run, and the claims of the token for the \<open>i\<close>-th profile.
\<close>

definition user_profile :: "nat \<Rightarrow> (string \<rightharpoonup> pyval)" where
  "user_profile i = profile_of (snd (users ! i))"

definition attempt :: "env \<Rightarrow> nat \<Rightarrow> py_error + string" where
  "attempt e i = generate_token (utcnow e i) (uuid4 e i) (user_profile i)"

definition user_claims :: "nat \<Rightarrow> datetime \<Rightarrow> uuid \<Rightarrow> json" where
  "user_claims i now u =
     (if i = 0 then
        token_claims now u (JStr ''req-001'') (JStr ''EMP001'') (JStr ''John Requester'')
          (JStr ''john.requester@company.com'') (JStr ''requester'') (JStr ''IT'')
      else if i = 1 then
        token_claims now u (JStr ''app-001'') (JStr ''EMP002'') (JStr ''Jane Approver'')
          (JStr ''jane.approver@company.com'') (JStr ''approver'') (JStr ''Finance'')
      else
        token_claims now u (JStr ''adm-001'') (JStr ''EMP003'') (JStr ''Admin User'')
          (JStr ''admin@company.com'') (JStr ''admin'') (JStr ''GA''))"

text \<open>The lines \<^verbatim>\<open>main\<close> prints: before the loop, in one iteration, after the loop.\<close>

definition header_lines :: "string list" where
  "header_lines = [''GA Ticketing System - JWT Token Generator'', replicate 50 CHR ''='', []]"

definition role_block :: "nat \<Rightarrow> string \<Rightarrow> string list" where
  "role_block i token =
     (let role = fst (users ! i); user_info = snd (users ! i)
      in [upper role @ '' USER:'',
          ''  Name: '' @ the (map_of user_info ''name''),
          ''  Email: '' @ the (map_of user_info ''email''),
          ''  Role: '' @ the (map_of user_info ''role''),
          ''  Token: '' @ token,
          []])"

definition footer_lines :: "string \<Rightarrow> string \<Rightarrow> string \<Rightarrow> string list" where
  "footer_lines t1 t2 t3 =
     [''Tokens saved to: test_tokens.json'', [], ''Usage examples:'',
      ''export REQUESTER_TOKEN='' @ [dquote] @ t1 @ [dquote],
      ''export APPROVER_TOKEN='' @ [dquote] @ t2 @ [dquote],
      ''export ADMIN_TOKEN='' @ [dquote] @ t3 @ [dquote]]"

text \<open>
  For the parser proofs: a text after which a number can end (it is empty or does not
  start with a digit), a text of white space only, and a bound on the calls the parser
  needs for a value.
\<close>

definition tail_ok :: "string \<Rightarrow> bool" where
  "tail_ok r = (case r of [] \<Rightarrow> True | c # _ \<Rightarrow> \<not> is_digit c)"

definition ws_only :: "string \<Rightarrow> bool" where
  "ws_only s = list_all is_ws s"

fun fuel :: "json \<Rightarrow> nat" where
  "fuel (JArr vs) = Suc (sum_list (map (\<lambda>v. Suc (fuel v)) vs))"
| "fuel (JObj kvs) = Suc (sum_list (map (\<lambda>kv. Suc (fuel (snd kv))) kvs))"
| "fuel v = 1"

text \<open>
  A clock reading (2023-11-14T22:13:20.123456) and a version-4 UUID, for the examples.
\<close>

definition example_now :: datetime where
  "example_now = 1700000000123456"

definition example_uuid :: uuid where
  "example_uuid = 0x123e4567e89b42d3a456426614174000"

text \<open>A second version-4 UUID.\<close>

definition example_uuid2 :: uuid where
  "example_uuid2 = 0x9b2e4c1a7f3d4e5ab8c60d1e2f3a4b5c"



text \<open>
  Surroundings for the examples: a run in which every clock reading is \<open>example_now\<close>, a
  run whose second clock reading is the last representable \<^verbatim>\<open>datetime\<close>, a system without
  PyJWT, and a world in which \<^verbatim>\<open>test_tokens.json\<close> exists and holds a key of an earlier
  run.
\<close>

definition example_env :: env where
  "example_env =
     \<lparr>utcnow = (\<lambda>i. example_now), uuid4 = (\<lambda>i. example_uuid + of_nat i), jwt_installed = True\<rparr>"

definition late_env :: env where
  "late_env =
     \<lparr>utcnow = (\<lambda>i. if i = 1 then datetime_max else example_now),
      uuid4 = (\<lambda>i. example_uuid + of_nat i), jwt_installed = True\<rparr>"

definition env_without_jwt :: env where
  "env_without_jwt = example_env\<lparr>jwt_installed := False\<rparr>"

definition example_world :: world where
  "example_world =
     \<lparr>stdout = [],
      files = [''test_tokens.json'' \<mapsto> dumps_indent2 (JObj [(''guest'', JStr ''old-token'')])]\<rparr>"

text \<open>
  Three states of the process: a fresh one, one after a first call in a world that has
  output and a token file, and one with other output and files in which the clock has been
  read but no UUID drawn yet.
\<close>

definition example_process :: process where
  "example_process = \<lparr>stdout = [], files = Map.empty, clock_reads = 0, uuid_draws = 0\<rparr>"

definition later_process :: process where
  "later_process =
     \<lparr>stdout = [''REQUESTER USER:''], files = [''test_tokens.json'' \<mapsto> ''{}''],
      clock_reads = 1, uuid_draws = 1\<rparr>"

definition other_process :: process where
  "other_process =
     \<lparr>stdout = [''GA Ticketing System - JWT Token Generator''],
      files = [''notes.txt'' \<mapsto> ''x''], clock_reads = 3, uuid_draws = 0\<rparr>"

section \<open>Properties\<close>

subsection \<open>Base64: decoding undoes encoding\<close>

lemma char_of_eq_iff_nat: "n < 256 \<Longrightarrow> (char_of (n::nat) = c) = (n = of_char c)"
  by (simp add: char_of_eq_iff take_bit_nat_eq_self)

lemma b64val_b64char: "n < 64 \<Longrightarrow> b64val (b64char n) = Some n"
  unfolding b64val_def b64char_def Let_def
  by (auto simp: char_of_eq_iff_nat)

lemma split64_3:
  fixes n :: nat
  shows "n div 262144 * 262144 + n div 4096 mod 64 * 4096 + n div 64 mod 64 * 64 + n mod 64 = n"
proof -
  have a: "n div 4096 = n div 64 div 64" by (simp add: div_mult2_eq)
  have b: "n div 262144 = n div 64 div 64 div 64" by (simp add: div_mult2_eq)
  show ?thesis
    unfolding a b
    using div_mult_mod_eq[of n 64] div_mult_mod_eq[of "n div 64" 64]
      div_mult_mod_eq[of "n div 64 div 64" 64]
    by linarith
qed

lemma split64_2:
  fixes n :: nat
  shows "n div 4096 * 4096 + n div 64 mod 64 * 64 + n mod 64 = n"
proof -
  have a: "n div 4096 = n div 64 div 64" by (simp add: div_mult2_eq)
  show ?thesis
    unfolding a
    using div_mult_mod_eq[of n 64] div_mult_mod_eq[of "n div 64" 64]
    by linarith
qed

lemma split64_1:
  fixes n :: nat
  shows "n div 64 * 64 + n mod 64 = n"
  by simp

lemma divmod_digit:
  fixes q r m :: nat
  assumes "r < m"
  shows "(q * m + r) div m = q" and "(q * m + r) mod m = r"
  using assms by simp_all

lemma group3:
  fixes a b c :: nat
  assumes "a < 256" "b < 256" "c < 256"
  defines "n \<equiv> a * 65536 + b * 256 + c"
  shows "n div 262144 < 64" and "n div 65536 = a" and "n div 256 mod 256 = b" and "n mod 256 = c"
proof -
  have e: "n = (a * 256 + b) * 256 + c" by (simp add: n_def)
  have e2: "n = a * 65536 + (b * 256 + c)" by (simp add: n_def)
  have "n < 64 * 262144" using assms(1-3) by (simp add: n_def)
  then show "n div 262144 < 64" by (simp add: less_mult_imp_div_less)
  have "b * 256 + c < 65536" using assms(2,3) by simp
  then show "n div 65536 = a" unfolding e2 by (rule divmod_digit(1))
  have "((a * 256 + b) * 256 + c) div 256 = a * 256 + b"
    using assms(3) by (rule divmod_digit(1))
  moreover have "(a * 256 + b) mod 256 = b"
    using assms(2) by (rule divmod_digit(2))
  ultimately show "n div 256 mod 256 = b"
    unfolding e by (simp only:)
  show "n mod 256 = c" unfolding e using assms(3) by (rule divmod_digit(2))
qed

lemma group2:
  fixes a b :: nat
  assumes "a < 256" "b < 256"
  defines "n \<equiv> (a * 256 + b) * 4"
  shows "n div 4096 < 64" and "n div 1024 = a" and "n div 4 mod 256 = b"
proof -
  have e: "n = a * 1024 + b * 4" by (simp add: n_def)
  have "n < 64 * 4096" using assms(1,2) by (simp add: n_def)
  then show "n div 4096 < 64" by (simp add: less_mult_imp_div_less)
  have "b * 4 < 1024" using assms(2) by simp
  then show "n div 1024 = a" unfolding e by (rule divmod_digit(1))
  have "n div 4 = a * 256 + b" by (simp add: n_def)
  moreover have "(a * 256 + b) mod 256 = b"
    using assms(2) by (rule divmod_digit(2))
  ultimately show "n div 4 mod 256 = b" by (simp only:)
qed

lemma group1:
  fixes a :: nat
  assumes "a < 256"
  defines "n \<equiv> a * 16"
  shows "n div 64 < 64" and "n div 16 = a"
proof -
  have "n < 64 * 64" using assms(1) by (simp add: n_def)
  then show "n div 64 < 64" by (simp add: less_mult_imp_div_less)
  show "n div 16 = a" by (simp add: n_def)
qed

lemma b64char_neq_eq: "b64char n \<noteq> CHR ''=''"
  unfolding b64char_def by (auto simp: char_of_eq_iff_nat)

lemma b64char_neq_dot: "b64char n \<noteq> CHR ''.''"
  unfolding b64char_def by (auto simp: char_of_eq_iff_nat)

lemma base64url_encode_Nil: "base64url_encode [] = []"
  by (simp add: base64url_encode_def)

lemma base64url_encode_1:
  "n = of_char a * 16 \<Longrightarrow> base64url_encode [a] = map b64char [n div 64, n mod 64]"
  by (simp add: base64url_encode_def Let_def b64char_neq_eq)

lemma base64url_encode_2:
  "n = (of_char a * 256 + of_char b) * 4 \<Longrightarrow>
   base64url_encode [a, b] = map b64char [n div 4096, n div 64 mod 64, n mod 64]"
  by (simp add: base64url_encode_def Let_def b64char_neq_eq)

lemma base64url_encode_3:
  "n = of_char a * 65536 + of_char b * 256 + of_char c \<Longrightarrow>
   base64url_encode (a # b # c # r) =
     map b64char [n div 262144, n div 4096 mod 64, n div 64 mod 64, n mod 64] @ base64url_encode r"
  by (simp add: base64url_encode_def Let_def b64char_neq_eq)

lemma base64url_encode_no_dot: "CHR ''.'' \<notin> set (base64url_encode bs)"
  by (induction bs rule: urlsafe_b64encode.induct)
     (simp_all add: base64url_encode_Nil base64url_encode_1 base64url_encode_2
        base64url_encode_3 b64char_neq_dot[symmetric])

lemma b64vals_append:
  "b64vals (xs @ ys) =
     (case b64vals xs of None \<Rightarrow> None
      | Some vs \<Rightarrow> (case b64vals ys of None \<Rightarrow> None | Some ws \<Rightarrow> Some (vs @ ws)))"
  by (induction xs) (simp_all split: option.splits)

lemma b64vals_map: "\<forall>v \<in> set vs. v < 64 \<Longrightarrow> b64vals (map b64char vs) = Some vs"
  by (induction vs) (simp_all add: b64val_b64char)

lemma b64bytes_1:
  fixes n :: nat
  shows "b64bytes [n div 64, n mod 64] = Some [char_of (n div 16)]"
  by (simp only: b64bytes.simps split64_1)

lemma b64bytes_2:
  fixes n :: nat
  shows "b64bytes [n div 4096, n div 64 mod 64, n mod 64] =
         Some [char_of (n div 1024), char_of (n div 4 mod 256)]"
  by (simp only: b64bytes.simps split64_2 Let_def)

lemma b64bytes_3:
  fixes n :: nat
  shows "b64bytes (n div 262144 # n div 4096 mod 64 # n div 64 mod 64 # n mod 64 # vs) =
         (case b64bytes vs of None \<Rightarrow> None
          | Some bs \<Rightarrow>
              Some (char_of (n div 65536) # char_of (n div 256 mod 256) # char_of (n mod 256) # bs))"
  by (simp only: b64bytes.simps split64_3 Let_def)

lemma base64url_decode_encode: "base64url_decode (base64url_encode bs) = Some bs"
proof (induction bs rule: urlsafe_b64encode.induct)
  case 1
  show ?case by (simp add: base64url_decode_def base64url_encode_def)
next
  case (2 a)
  define n :: nat where "n = of_char a * 16"
  have lt: "(of_char a :: nat) < 256" by simp
  note g = group1[OF lt, folded n_def]
  have v: "b64vals (map b64char [n div 64, n mod 64]) = Some [n div 64, n mod 64]"
    by (rule b64vals_map) (simp add: g)
  show ?case
    unfolding base64url_decode_def base64url_encode_1[OF n_def] v
    by (simp only: option.case b64bytes_1 g char_of_char)
next
  case (3 a b)
  define n :: nat where "n = (of_char a * 256 + of_char b) * 4"
  have lt: "(of_char a :: nat) < 256" "(of_char b :: nat) < 256" by simp_all
  note g = group2[OF lt, folded n_def]
  have v: "b64vals (map b64char [n div 4096, n div 64 mod 64, n mod 64]) =
           Some [n div 4096, n div 64 mod 64, n mod 64]"
    by (rule b64vals_map) (simp add: g)
  show ?case
    unfolding base64url_decode_def base64url_encode_2[OF n_def] v
    by (simp only: option.case b64bytes_2 g char_of_char)
next
  case (4 a b c r)
  define n :: nat where "n = of_char a * 65536 + of_char b * 256 + of_char c"
  have lt: "(of_char a :: nat) < 256" "(of_char b :: nat) < 256" "(of_char c :: nat) < 256"
    by simp_all
  note g = group3[OF lt, folded n_def]
  have v: "b64vals (map b64char [n div 262144, n div 4096 mod 64, n div 64 mod 64, n mod 64]) =
           Some [n div 262144, n div 4096 mod 64, n div 64 mod 64, n mod 64]"
    by (rule b64vals_map) (simp add: g)
  from 4 obtain vs where vs: "b64vals (base64url_encode r) = Some vs" "b64bytes vs = Some r"
    by (auto simp: base64url_decode_def split: option.splits)
  show ?case
    unfolding base64url_decode_def base64url_encode_3[OF n_def] b64vals_append v vs(1)
    by (simp only: option.case append.simps b64bytes_3 vs(2) g char_of_char)
qed

subsection \<open>JSON strings: parsing undoes escaping\<close>

lemma hexval_hexdigit: "k < 16 \<Longrightarrow> hexval (hexdigit k) = Some k"
  unfolding hexval_def hexdigit_def Let_def
  by (auto simp: char_of_eq_iff_nat)

lemma hex_fixed_4_byte:
  assumes "n < 256"
  shows "hex_fixed 4 n = [CHR ''0'', CHR ''0'', hexdigit (n div 16), hexdigit (n mod 16)]"
proof -
  have a: "n div 16 div 16 = 0" using assms by (simp add: div_mult2_eq[symmetric])
  have b: "n div 16 mod 16 = n div 16"
    using assms by (intro mod_less) (simp add: less_mult_imp_div_less)
  have h0: "hexdigit 0 = CHR ''0''" by (simp add: hexdigit_def char_of_eq_iff_nat)
  have four: "(4::nat) = Suc (Suc (Suc (Suc 0)))" by simp
  have "hex_fixed 4 n = [hexdigit (n div 16 div 16 div 16 mod 16), hexdigit (n div 16 div 16 mod 16),
                    hexdigit (n div 16 mod 16), hexdigit (n mod 16)]"
    unfolding four by (simp only: hex_fixed.simps append.simps)
  also have "\<dots> = [CHR ''0'', CHR ''0'', hexdigit (n div 16), hexdigit (n mod 16)]"
    unfolding a b by (simp add: h0)
  finally show ?thesis .
qed

lemma cons_fst_simps:
  "cons_fst x None = None"
  "cons_fst x (Some (xs, t)) = Some (x # xs, t)"
  by (simp_all add: cons_fst_def)

lemma escape_char_special:
  "escape_char dquote = [backslash, dquote]"
  "escape_char backslash = [backslash, backslash]"
  "escape_char (CHR 0x08) = [backslash, CHR ''b'']"
  "escape_char (CHR 0x0C) = [backslash, CHR ''f'']"
  "escape_char (CHR 0x0A) = [backslash, CHR ''n'']"
  "escape_char (CHR 0x0D) = [backslash, CHR ''r'']"
  "escape_char (CHR 0x09) = [backslash, CHR ''t'']"
  by (simp_all add: escape_char_def dquote_def backslash_def)

lemma parse_chars_special:
  "parse_chars ([backslash, dquote] @ t) = cons_fst dquote (parse_chars t)"
  "parse_chars ([backslash, backslash] @ t) = cons_fst backslash (parse_chars t)"
  "parse_chars ([backslash, CHR ''b''] @ t) = cons_fst (CHR 0x08) (parse_chars t)"
  "parse_chars ([backslash, CHR ''f''] @ t) = cons_fst (CHR 0x0C) (parse_chars t)"
  "parse_chars ([backslash, CHR ''n''] @ t) = cons_fst (CHR 0x0A) (parse_chars t)"
  "parse_chars ([backslash, CHR ''r''] @ t) = cons_fst (CHR 0x0D) (parse_chars t)"
  "parse_chars ([backslash, CHR ''t''] @ t) = cons_fst (CHR 0x09) (parse_chars t)"
  by (simp_all add: unescape_def dquote_def backslash_def)

lemma parse_chars_hex:
  assumes "n < 256"
  shows "parse_chars ([backslash, CHR ''u'', CHR ''0'', CHR ''0'', hexdigit (n div 16), hexdigit (n mod 16)] @ t)
         = cons_fst (char_of n) (parse_chars t)"
proof -
  have d: "n div 16 < 16" "n mod 16 < 16" using assms by (simp_all add: less_mult_imp_div_less)
  have h0: "hexval CHR ''0'' = Some 0" by (simp add: hexval_def)
  have r: "((0 * 16 + 0) * 16 + n div 16) * 16 + n mod 16 = n" by simp
  have bq: "backslash \<noteq> dquote" by (simp add: backslash_def dquote_def)
  show ?thesis
    using assms
    by (simp add: hexval_hexdigit[OF d(1)] hexval_hexdigit[OF d(2)] h0 bq)
qed

lemma parse_chars_plain:
  assumes "c \<noteq> dquote" "c \<noteq> backslash" "32 \<le> (of_char c :: nat)"
  shows "parse_chars ([c] @ t) = cons_fst c (parse_chars t)"
  using assms by simp

lemma parse_chars_escape: "parse_chars (escape_char c @ t) = cons_fst c (parse_chars t)"
proof -
  let ?n = "of_char c :: nat"
  have lt: "?n < 256" by simp
  show ?thesis
  proof (cases "c \<in> {dquote, backslash, CHR 0x08, CHR 0x0C, CHR 0x0A, CHR 0x0D, CHR 0x09}")
    case True
    then show ?thesis
      using parse_chars_special[of t] by (auto simp only: escape_char_special)
  next
    case False
    then have ne: "c \<noteq> dquote" "c \<noteq> backslash" "c \<noteq> CHR 0x08" "c \<noteq> CHR 0x0C"
      "c \<noteq> CHR 0x0A" "c \<noteq> CHR 0x0D" "c \<noteq> CHR 0x09" by simp_all
    show ?thesis
    proof (cases "?n < 32 \<or> 126 < ?n")
      case True
      then have e: "escape_char c =
          [backslash, CHR ''u'', CHR ''0'', CHR ''0'', hexdigit (?n div 16), hexdigit (?n mod 16)]"
        using ne by (simp add: escape_char_def hex_fixed_4_byte[OF lt])
      show ?thesis unfolding e parse_chars_hex[OF lt] by simp
    next
      case False
      then have e: "escape_char c = [c]" using ne by (simp add: escape_char_def)
      from False have "32 \<le> ?n" by simp
      then show ?thesis unfolding e using ne(1,2) by (rule parse_chars_plain[rotated 2])
    qed
  qed
qed

lemma parse_chars_encode:
  "parse_chars (concat (map escape_char s) @ dquote # rest) = Some (s, rest)"
  by (induction s) (simp_all add: parse_chars_escape cons_fst_simps)

subsection \<open>Integers: parsing undoes printing\<close>

declare digits_nat.simps [simp del]

lemma is_digit_char_of: "d < 10 \<Longrightarrow> is_digit (char_of (48 + d :: nat))"
  by (simp add: is_digit_def)

lemma digit_val: "d < 10 \<Longrightarrow> (of_char (char_of (48 + d :: nat)) :: nat) - 48 = d"
  by simp

lemma digits_nat_all: "\<forall>c \<in> set (digits_nat n). is_digit c"
proof (induction n rule: digits_nat.induct)
  case (1 n)
  show ?case
  proof (cases "n < 10")
    case True
    then show ?thesis by (subst digits_nat.simps) (simp add: is_digit_char_of)
  next
    case False
    have "n mod 10 < 10" by simp
    then have "is_digit (char_of (48 + n mod 10))" by (rule is_digit_char_of)
    with False 1 show ?thesis by (subst digits_nat.simps) simp
  qed
qed

lemma digits_nat_nonempty: "digits_nat n \<noteq> []"
  by (subst digits_nat.simps) simp

lemma nat_of_digits_snoc:
  "nat_of_digits (ds @ [c]) = 10 * nat_of_digits ds + (of_char c - 48)"
  by (simp add: nat_of_digits_def)

lemma nat_of_digits_digits: "nat_of_digits (digits_nat n) = n"
proof (induction n rule: digits_nat.induct)
  case (1 n)
  show ?case
  proof (cases "n < 10")
    case True
    then show ?thesis by (subst digits_nat.simps) (simp add: nat_of_digits_def)
  next
    case False
    have d: "(of_char (char_of (48 + n mod 10 :: nat)) :: nat) - 48 = n mod 10"
      by (rule digit_val) simp
    from False 1 have ih: "nat_of_digits (digits_nat (n div 10)) = n div 10" by simp
    have "nat_of_digits (digits_nat n) =
          nat_of_digits (digits_nat (n div 10) @ [char_of (48 + n mod 10)])"
      using False by (subst digits_nat.simps) simp
    also have "\<dots> = 10 * (n div 10) + n mod 10"
      unfolding nat_of_digits_snoc ih d ..
    also have "\<dots> = n" by simp
    finally show ?thesis .
  qed
qed

lemma takeWhile_digits:
  assumes "\<forall>c \<in> set ds. is_digit c" "tail_ok rest"
  shows "takeWhile is_digit (ds @ rest) = ds" and "dropWhile is_digit (ds @ rest) = rest"
proof -
  have r: "takeWhile is_digit rest = []" "dropWhile is_digit rest = rest"
    using assms(2) by (cases rest; simp add: tail_ok_def)+
  show "takeWhile is_digit (ds @ rest) = ds"
    using assms(1) by (simp add: takeWhile_append2 r)
  show "dropWhile is_digit (ds @ rest) = rest"
    using assms(1) by (simp add: dropWhile_append2 r)
qed

lemma parse_nat_digits:
  assumes "tail_ok rest"
  shows "parse_nat (digits_nat n @ rest) = Some (n, rest)"
  using takeWhile_digits[OF digits_nat_all assms, of n]
  by (simp add: parse_nat_def digits_nat_nonempty nat_of_digits_digits)

lemma digits_nat_hd: "\<exists>c cs. digits_nat n = c # cs \<and> is_digit c"
  using digits_nat_all[of n] digits_nat_nonempty[of n] by (cases "digits_nat n") auto

lemma is_digit_not_minus: "is_digit c \<Longrightarrow> c \<noteq> CHR ''-''"
  by (auto simp: is_digit_def)

lemma parse_int_encode:
  assumes "tail_ok rest"
  shows "parse_int (encode_int i @ rest) = Some (i, rest)"
proof (cases "i < 0")
  case True
  then show ?thesis
    by (simp add: parse_int_def encode_int_def parse_nat_digits[OF assms])
next
  case False
  obtain c cs where d: "digits_nat (nat i) = c # cs" "is_digit c"
    using digits_nat_hd by blast
  have "parse_nat ((c # cs) @ rest) = Some (nat i, rest)"
    using parse_nat_digits[OF assms, of "nat i"] d(1) by simp
  then show ?thesis
    using False d is_digit_not_minus[OF d(2)]
    by (simp add: parse_int_def encode_int_def)
qed

subsection \<open>The JSON parser, step by step\<close>

lemma ws_only_simps: "ws_only []" "ws_only (c # s) = (is_ws c \<and> ws_only s)"
  "ws_only (s @ t) = (ws_only s \<and> ws_only t)"
  by (simp_all add: ws_only_def)

lemma skip_ws_ws: "ws_only w \<Longrightarrow> skip_ws (w @ s) = skip_ws s"
  by (induction w) (simp_all add: skip_ws_def ws_only_def)

lemma skip_ws_nonws: "\<not> is_ws c \<Longrightarrow> skip_ws (c # s) = c # s"
  by (simp add: skip_ws_def)

lemma skip_ws_ws_nonws: "ws_only w \<Longrightarrow> \<not> is_ws c \<Longrightarrow> skip_ws (w @ c # s) = c # s"
  by (simp add: skip_ws_ws skip_ws_nonws)

lemma skip_ws_Nil: "skip_ws [] = []"
  by (simp add: skip_ws_def)

lemma parse_value_ws: "ws_only w \<Longrightarrow> parse_value n (w @ s) = parse_value n s"
  by (cases n) (simp_all add: skip_ws_ws)

lemma parse_members_ws: "ws_only w \<Longrightarrow> parse_members n (w @ s) = parse_members n s"
  by (cases n) (simp_all add: skip_ws_ws)

lemma parse_elems_ws: "ws_only w \<Longrightarrow> parse_elems n (w @ s) = parse_elems n s"
  by (cases n) (simp_all add: parse_value_ws)

lemma not_ws_chars:
  "\<not> is_ws dquote" "\<not> is_ws (CHR ''['')" "\<not> is_ws (CHR '']'')" "\<not> is_ws (CHR ''{'')"
  "\<not> is_ws (CHR ''}'')" "\<not> is_ws (CHR '','')" "\<not> is_ws (CHR '':'')" "\<not> is_ws (CHR ''n'')"
  "\<not> is_ws (CHR ''t'')" "\<not> is_ws (CHR ''f'')" "\<not> is_ws (CHR ''-'')"
  by (simp_all add: is_ws_def dquote_def)

lemma is_digit_not_ws: "is_digit c \<Longrightarrow> \<not> is_ws c"
  by (auto simp: is_digit_def is_ws_def)

lemma is_ws_not_digit: "is_ws c \<Longrightarrow> \<not> is_digit c"
  by (auto simp: is_digit_def is_ws_def)

lemma is_digit_not_special:
  "is_digit c \<Longrightarrow> c \<noteq> dquote \<and> c \<noteq> CHR ''['' \<and> c \<noteq> CHR '']'' \<and> c \<noteq> CHR ''{'' \<and>
     c \<noteq> CHR ''t'' \<and> c \<noteq> CHR ''f'' \<and> c \<noteq> CHR ''n''"
  by (auto simp: is_digit_def dquote_def)

lemma pv_str:
  "parse_value (Suc n) (dquote # r) = map_option (\<lambda>(x, t). (JStr x, t)) (parse_chars r)"
  by (simp add: skip_ws_nonws not_ws_chars)

lemma pv_null: "parse_value (Suc n) (''null'' @ r) = Some (JNull, r)"
  by (simp add: skip_ws_nonws not_ws_chars dquote_def)

lemma pv_true: "parse_value (Suc n) (''true'' @ r) = Some (JBool True, r)"
  by (simp add: skip_ws_nonws not_ws_chars dquote_def)

lemma pv_false: "parse_value (Suc n) (''false'' @ r) = Some (JBool False, r)"
  by (simp add: skip_ws_nonws not_ws_chars dquote_def)

lemma pv_int:
  assumes "c = CHR ''-'' \<or> is_digit c"
  shows "parse_value (Suc n) (c # r) = map_option (\<lambda>(i, t). (JInt i, t)) (parse_int (c # r))"
proof -
  have nws: "\<not> is_ws c" using assms is_digit_not_ws not_ws_chars by auto
  have ne: "c \<noteq> dquote" "c \<noteq> CHR ''[''" "c \<noteq> CHR ''{''" "c \<noteq> CHR ''t''" "c \<noteq> CHR ''f''"
    "c \<noteq> CHR ''n''"
    using assms is_digit_not_special[of c] by (auto simp: dquote_def)
  show ?thesis
    by (simp add: skip_ws_nonws[OF nws] ne)
qed

lemma pv_arr_empty: "parse_value (Suc n) (''[]'' @ r) = Some (JArr [], r)"
  by (simp add: skip_ws_nonws not_ws_chars dquote_def)

lemma pv_obj_empty: "parse_value (Suc n) (''{}'' @ r) = Some (JObj [], r)"
  by (simp add: skip_ws_nonws not_ws_chars dquote_def)

lemma pv_arr:
  assumes "ws_only w" "\<not> is_ws c" "c \<noteq> CHR '']''"
  shows "parse_value (Suc n) (CHR ''['' # w @ c # s) =
         map_option (\<lambda>(vs, t). (JArr vs, t)) (parse_elems n (c # s))"
  using assms
  by (simp add: skip_ws_nonws not_ws_chars dquote_def skip_ws_ws_nonws parse_elems_ws)

lemma pv_obj:
  assumes "ws_only w"
  shows "parse_value (Suc n) (CHR ''{'' # w @ dquote # s) =
         map_option (\<lambda>(kvs, t). (JObj kvs, t)) (parse_members n (dquote # s))"
  using assms
  by (simp add: skip_ws_nonws not_ws_chars skip_ws_ws_nonws parse_members_ws)
     (simp add: dquote_def)

lemma encode_int_hd: "\<exists>c cs. encode_int i = c # cs \<and> (c = CHR ''-'' \<or> is_digit c)"
  using digits_nat_hd[of "nat i"] by (auto simp: encode_int_def)

lemma encode_json_hd:
  "\<exists>c cs. encode_json nl ks lvl v = c # cs \<and> \<not> is_ws c \<and> c \<noteq> CHR '']''"
proof (cases v)
  case (JInt i)
  obtain c cs where "encode_int i = c # cs" "c = CHR ''-'' \<or> is_digit c"
    using encode_int_hd by blast
  then show ?thesis
    using JInt is_digit_not_ws[of c] is_digit_not_special[of c] not_ws_chars by auto
qed (auto simp: encode_str_def not_ws_chars is_ws_def dquote_def)

lemma tail_ok_simps:
  "tail_ok []" "tail_ok (c # s) = (\<not> is_digit c)"
  by (simp_all add: tail_ok_def)

lemma tail_ok_ws: "ws_only w \<Longrightarrow> tail_ok s \<Longrightarrow> tail_ok (w @ s)"
  by (cases w) (simp_all add: tail_ok_simps ws_only_simps is_ws_not_digit)

lemma not_digit_chars:
  "\<not> is_digit (CHR '','')" "\<not> is_digit (CHR '']'')" "\<not> is_digit (CHR ''}'')"
  by (simp_all add: is_digit_def)

text \<open>The elements of a non-empty array, up to the closing bracket.\<close>

lemma parse_elems_join:
  assumes P: "\<And>v n rest. v \<in> set vs \<Longrightarrow> fuel v \<le> n \<Longrightarrow> tail_ok rest \<Longrightarrow>
               parse_value n (enc v @ rest) = Some (v, rest)"
    and ws: "ws_only w" "ws_only w2"
    and ne: "vs \<noteq> []"
    and fu: "sum_list (map (\<lambda>v. Suc (fuel v)) vs) \<le> m"
  shows "parse_elems m (join (CHR '','' # w) (map enc vs) @ w2 @ CHR '']'' # rest) = Some (vs, rest)"
  using P ne fu
proof (induction vs arbitrary: m)
  case Nil
  then show ?case by simp
next
  case (Cons v vs)
  from Cons.prems(3) obtain m' where m: "m = Suc m'" "fuel v \<le> m'"
    "sum_list (map (\<lambda>v. Suc (fuel v)) vs) \<le> m'"
    by (cases m) auto
  show ?case
  proof (cases vs)
    case Nil
    have t: "tail_ok (w2 @ CHR '']'' # rest)"
      by (rule tail_ok_ws[OF ws(2)]) (simp add: tail_ok_simps not_digit_chars)
    have "parse_value m' (enc v @ w2 @ CHR '']'' # rest) = Some (v, w2 @ CHR '']'' # rest)"
      by (rule Cons.prems(1)) (simp_all add: m t)
    then show ?thesis
      using Nil by (simp add: m skip_ws_ws_nonws[OF ws(2)] not_ws_chars)
  next
    case (Cons v2 vs2)
    let ?r = "CHR '','' # w @ join (CHR '','' # w) (map enc vs) @ w2 @ CHR '']'' # rest"
    have t: "tail_ok ?r" by (simp add: tail_ok_simps not_digit_chars)
    have pv: "parse_value m' (enc v @ ?r) = Some (v, ?r)"
      by (rule Cons.prems(1)) (simp_all add: m t)
    have ih: "parse_elems m' (join (CHR '','' # w) (map enc vs) @ w2 @ CHR '']'' # rest) = Some (vs, rest)"
      by (rule Cons.IH) (use Cons.prems(1) Cons m in auto)
    have "parse_elems m (enc v @ ?r) = Some (v # vs, rest)"
      by (simp add: m pv skip_ws_nonws not_ws_chars parse_elems_ws[OF ws(1)] ih cons_fst_simps)
    then show ?thesis using Cons by simp
  qed
qed

lemma parse_members_join:
  assumes P: "\<And>k v n rest. (k, v) \<in> set kvs \<Longrightarrow> fuel v \<le> n \<Longrightarrow> tail_ok rest \<Longrightarrow>
               parse_value n (enc v @ rest) = Some (v, rest)"
    and ws: "ws_only w" "ws_only w2" "ws_only kw"
    and ne: "kvs \<noteq> []"
    and fu: "sum_list (map (\<lambda>kv. Suc (fuel (snd kv))) kvs) \<le> m"
  shows "parse_members m
           (join (CHR '','' # w) (map (\<lambda>(k, v). encode_str k @ (CHR '':'' # kw) @ enc v) kvs) @
            w2 @ CHR ''}'' # rest) = Some (kvs, rest)"
  using P ne fu
proof (induction kvs arbitrary: m)
  case Nil
  then show ?case by simp
next
  case (Cons kv kvs)
  obtain k v where kv: "kv = (k, v)" by (cases kv)
  from Cons.prems(3) obtain m' where m: "m = Suc m'" "fuel v \<le> m'"
    "sum_list (map (\<lambda>kv. Suc (fuel (snd kv))) kvs) \<le> m'"
    by (cases m) (auto simp: kv)
  let ?f = "\<lambda>(k, v). encode_str k @ (CHR '':'' # kw) @ enc v"
  have key: "\<And>t. parse_chars (concat (map escape_char k) @ dquote # t) = Some (k, t)"
    by (rule parse_chars_encode)
  show ?case
  proof (cases kvs)
    case Nil
    let ?r = "w2 @ CHR ''}'' # rest"
    have t: "tail_ok ?r"
      by (rule tail_ok_ws[OF ws(2)]) (simp add: tail_ok_simps not_digit_chars)
    have pv: "parse_value m' (enc v @ ?r) = Some (v, ?r)"
    proof (rule Cons.prems(1)[of k])
      show "tail_ok ?r" by (rule t)
    qed (simp_all add: m kv)
    have "parse_members m (encode_str k @ (CHR '':'' # kw) @ enc v @ ?r) = Some ([(k, v)], rest)"
      using pv
      by (simp add: m encode_str_def skip_ws_nonws not_ws_chars key
          parse_value_ws[OF ws(3)] skip_ws_ws_nonws[OF ws(2)])
    then show ?thesis using Nil kv by simp
  next
    case (Cons kv2 kvs2)
    let ?r = "CHR '','' # w @ join (CHR '','' # w) (map ?f kvs) @ w2 @ CHR ''}'' # rest"
    have t: "tail_ok ?r" by (rule tail_ok_simps(2)[THEN iffD2]) (rule not_digit_chars)
    have pv: "parse_value m' (enc v @ ?r) = Some (v, ?r)"
    proof (rule Cons.prems(1)[of k])
      show "tail_ok ?r" by (rule t)
    qed (simp_all add: m kv)
    have ih: "parse_members m' (join (CHR '','' # w) (map ?f kvs) @ w2 @ CHR ''}'' # rest) = Some (kvs, rest)"
      by (rule Cons.IH) (use Cons.prems(1) Cons m in auto)
    have "parse_members m (encode_str k @ (CHR '':'' # kw) @ enc v @ ?r) = Some ((k, v) # kvs, rest)"
      using pv ih
      by (simp add: m encode_str_def skip_ws_nonws not_ws_chars key
          parse_value_ws[OF ws(3)] parse_members_ws[OF ws(1)] cons_fst_simps)
    then show ?thesis using Cons kv by simp
  qed
qed

lemma join_hd:
  assumes "xs \<noteq> []" "\<And>x. x \<in> set xs \<Longrightarrow> \<exists>c cs. f x = c # cs \<and> Q c"
  shows "\<exists>c cs. join sep (map f xs) = c # cs \<and> Q c"
proof (cases xs)
  case Nil
  with assms(1) show ?thesis by simp
next
  case (Cons x ys)
  obtain c cs where "f x = c # cs" "Q c" using assms(2)[of x] Cons by auto
  then show ?thesis using Cons by (cases ys) auto
qed

lemma parse_value_encode:
  assumes nl: "\<And>l. ws_only (nl l)" and kw: "ws_only kw"
  shows "fuel v \<le> n \<Longrightarrow> tail_ok rest \<Longrightarrow>
         parse_value n (encode_json nl (CHR '':'' # kw) lvl v @ rest) = Some (v, rest)"
proof (induction v arbitrary: n rest lvl)
  case JNull
  then obtain m where "n = Suc m" by (cases n) auto
  then show ?case using pv_null by simp
next
  case (JBool b)
  then obtain m where "n = Suc m" by (cases n) auto
  then show ?case using pv_true pv_false by simp
next
  case (JInt i)
  then obtain m where n: "n = Suc m" by (cases n) auto
  obtain c cs where e: "encode_int i = c # cs" "c = CHR ''-'' \<or> is_digit c"
    using encode_int_hd by blast
  have "parse_value (Suc m) (c # cs @ rest) =
        map_option (\<lambda>(i, t). (JInt i, t)) (parse_int (c # cs @ rest))"
    by (rule pv_int[OF e(2)])
  moreover have "parse_int (c # cs @ rest) = Some (i, rest)"
    using parse_int_encode[OF JInt.prems(2), of i] e(1) by simp
  ultimately show ?case using n e(1) by simp
next
  case (JStr s)
  then obtain m where n: "n = Suc m" by (cases n) auto
  show ?case using parse_chars_encode[of s rest]
    by (simp add: n encode_str_def skip_ws_nonws not_ws_chars)
next
  case (JArr vs)
  from JArr.prems(1) obtain m where n: "n = Suc m"
    "sum_list (map (\<lambda>v. Suc (fuel v)) vs) \<le> m" by (cases n) auto
  show ?case
  proof (cases "vs = []")
    case True
    then show ?thesis using pv_arr_empty[of m rest] by (simp add: n)
  next
    case False
    let ?enc = "encode_json nl (CHR '':'' # kw) (Suc lvl)"
    let ?body = "join (CHR '','' # nl (Suc lvl)) (map ?enc vs) @ nl lvl @ CHR '']'' # rest"
    obtain c cs where hd: "join (CHR '','' # nl (Suc lvl)) (map ?enc vs) = c # cs"
      "\<not> is_ws c \<and> c \<noteq> CHR '']''"
      using join_hd[OF False, of ?enc "\<lambda>c. \<not> is_ws c \<and> c \<noteq> CHR '']''"] encode_json_hd by blast
    have pe: "parse_elems m ?body = Some (vs, rest)"
      by (rule parse_elems_join[OF _ nl nl False n(2)]) (rule JArr.IH)
    have "parse_value (Suc m) (CHR ''['' # nl (Suc lvl) @ c # (cs @ nl lvl @ CHR '']'' # rest)) =
          map_option (\<lambda>(vs, t). (JArr vs, t)) (parse_elems m (c # (cs @ nl lvl @ CHR '']'' # rest)))"
      using hd(2) by (intro pv_arr[OF nl]) simp_all
    then show ?thesis using False pe hd(1) by (simp add: n)
  qed
next
  case (JObj kvs)
  from JObj.prems(1) obtain m where n: "n = Suc m"
    "sum_list (map (\<lambda>kv. Suc (fuel (snd kv))) kvs) \<le> m" by (cases n) auto
  show ?case
  proof (cases "kvs = []")
    case True
    then show ?thesis using pv_obj_empty[of m rest] by (simp add: n)
  next
    case False
    let ?enc = "encode_json nl (CHR '':'' # kw) (Suc lvl)"
    let ?f = "\<lambda>(k, v). encode_str k @ (CHR '':'' # kw) @ ?enc v"
    let ?body = "join (CHR '','' # nl (Suc lvl)) (map ?f kvs) @ nl lvl @ CHR ''}'' # rest"
    have "\<And>x. x \<in> set kvs \<Longrightarrow> \<exists>c cs. ?f x = c # cs \<and> c = dquote"
      by (auto simp: encode_str_def)
    then obtain cs where hd: "join (CHR '','' # nl (Suc lvl)) (map ?f kvs) = dquote # cs"
      using join_hd[OF False, of ?f "\<lambda>c. c = dquote"] by blast
    have pm: "parse_members m ?body = Some (kvs, rest)"
    proof (rule parse_members_join[OF _ nl nl kw False n(2)])
      fix k v n rest
      assume "(k, v) \<in> set kvs" "fuel v \<le> n" "tail_ok rest"
      then show "parse_value n (?enc v @ rest) = Some (v, rest)"
        using JObj.IH[of "(k, v)" v] by simp
    qed
    have "parse_value (Suc m) (CHR ''{'' # nl (Suc lvl) @ dquote # (cs @ nl lvl @ CHR ''}'' # rest)) =
          map_option (\<lambda>(kvs, t). (JObj kvs, t)) (parse_members m (dquote # (cs @ nl lvl @ CHR ''}'' # rest)))"
      by (rule pv_obj[OF nl])
    then show ?thesis using False pm hd by (simp add: n)
  qed
qed

lemma fuel_join:
  assumes "\<And>x. x \<in> set xs \<Longrightarrow> g x \<le> length (f x)" "xs \<noteq> []"
  shows "sum_list (map (\<lambda>x. Suc (g x)) xs) \<le> Suc (length (join (CHR '','' # w) (map f xs)))"
  using assms
proof (induction xs)
  case Nil
  then show ?case by simp
next
  case (Cons x xs)
  have x: "g x \<le> length (f x)" using Cons.prems(1) by simp
  show ?case
  proof (cases xs)
    case Nil
    then show ?thesis using x by simp
  next
    case (Cons y ys)
    have "sum_list (map (\<lambda>x. Suc (g x)) xs) \<le> Suc (length (join (CHR '','' # w) (map f xs)))"
      by (rule Cons.IH) (use Cons.prems Cons in auto)
    then show ?thesis using x Cons by simp
  qed
qed

lemma fuel_le_length: "fuel v \<le> length (encode_json nl ks lvl v)"
proof (induction v arbitrary: lvl)
  case (JInt i)
  obtain c cs where "encode_int i = c # cs" using encode_int_hd by blast
  then show ?case by simp
next
  case (JStr s)
  show ?case by (simp add: encode_str_def)
next
  case (JArr vs)
  show ?case
  proof (cases "vs = []")
    case True
    then show ?thesis by simp
  next
    case False
    have "sum_list (map (\<lambda>v. Suc (fuel v)) vs) \<le>
          Suc (length (join (CHR '','' # nl (Suc lvl)) (map (encode_json nl ks (Suc lvl)) vs)))"
      by (rule fuel_join[OF _ False]) (rule JArr.IH)
    then show ?thesis using False by simp
  qed
next
  case (JObj kvs)
  show ?case
  proof (cases "kvs = []")
    case True
    then show ?thesis by simp
  next
    case False
    let ?f = "\<lambda>(k, v). encode_str k @ ks @ encode_json nl ks (Suc lvl) v"
    have "sum_list (map (\<lambda>kv. Suc (fuel (snd kv))) kvs) \<le>
          Suc (length (join (CHR '','' # nl (Suc lvl)) (map ?f kvs)))"
    proof (rule fuel_join[OF _ False])
      fix x assume x: "x \<in> set kvs"
      obtain k v where kv: "x = (k, v)" by (cases x)
      have "fuel v \<le> length (encode_json nl ks (Suc lvl) v)"
        using JObj.IH[of x v] x kv by simp
      then show "fuel (snd x) \<le> length (?f x)" by (simp add: kv)
    qed
    then show ?thesis using False by simp
  qed
qed simp_all

lemma json_loads_encode:
  assumes nl: "\<And>l. ws_only (nl l)" and kw: "ws_only kw"
  shows "json_loads (encode_json nl (CHR '':'' # kw) lvl v) = Some v"
proof -
  have "parse_value (length (encode_json nl (CHR '':'' # kw) lvl v))
          (encode_json nl (CHR '':'' # kw) lvl v @ []) = Some (v, [])"
    by (rule parse_value_encode[OF nl kw fuel_le_length]) (simp add: tail_ok_simps)
  then show ?thesis by (simp add: json_loads_def skip_ws_Nil)
qed

lemma json_loads_dumps_compact: "json_loads (dumps_compact v) = Some v"
  unfolding dumps_compact_def
  using json_loads_encode[of "\<lambda>lvl. []" "[]" 0 v] by (simp add: ws_only_simps)

lemma json_loads_dumps_indent2: "json_loads (dumps_indent2 v) = Some v"
proof -
  have a: "\<And>l. ws_only (CHR 0x0A # replicate (2 * l) CHR '' '')"
    by (simp add: ws_only_def is_ws_def list_all_iff)
  have b: "ws_only '' ''" by (simp add: ws_only_def is_ws_def)
  show ?thesis
    unfolding dumps_indent2_def
    using json_loads_encode[of "\<lambda>lvl. CHR 0x0A # replicate (2 * lvl) CHR '' ''" "'' ''" 0 v, OF a b]
    by simp
qed

subsection \<open>Tokens: splitting and decoding\<close>

lemma split_on_no_sep: "c \<notin> set a \<Longrightarrow> split_on c a = [a]"
  by (induction a) auto

lemma split_on_append:
  "c \<notin> set a \<Longrightarrow> split_on c (a @ c # rest) = a # split_on c rest"
  by (induction a) auto

lemma split_on_three:
  assumes "c \<notin> set h" "c \<notin> set p" "c \<notin> set s"
  shows "split_on c (h @ [c] @ p @ [c] @ s) = [h, p, s]"
  using assms by (simp add: split_on_append split_on_no_sep)

lemma segments_compact_jws:
  "split_on CHR ''.'' (compact_jws j key) =
     [base64url_encode (dumps_compact jwt_header),
      base64url_encode (dumps_compact j),
      base64url_encode (hmac_sha256 key
        (base64url_encode (dumps_compact jwt_header) @ ''.'' @ base64url_encode (dumps_compact j)))]"
  unfolding compact_jws_def Let_def
  using split_on_three[OF base64url_encode_no_dot base64url_encode_no_dot base64url_encode_no_dot]
  by simp

lemma decode_payload_compact_jws: "decode_payload (compact_jws j key) = Some j"
  by (simp add: decode_payload_def segments_compact_jws base64url_decode_encode
      json_loads_dumps_compact)

lemma sum_bind_Inr: "sum_bind m f = Inr y \<longleftrightarrow> (\<exists>x. m = Inr x \<and> f x = Inr y)"
  by (cases m) (simp_all add: sum_bind_def)

lemma sum_bind_simps: "sum_bind (Inl e) f = Inl e" "sum_bind (Inr x) f = f x"
  by (simp_all add: sum_bind_def)

lemma getitem_Inr: "getitem d k = Inr v \<longleftrightarrow> d k = Some v"
  by (simp add: getitem_def split: option.splits)

lemma getitem_simps: "d k = Some v \<Longrightarrow> getitem d k = Inr v"
  "d k = None \<Longrightarrow> getitem d k = Inl (KeyError k)"
  by (simp_all add: getitem_def)

lemma jwt_encode_Inr:
  assumes "jwt_encode payload key = Inr tok"
  shows "\<exists>j. dict_to_json (convert_time_claims payload) = Inr j \<and> tok = compact_jws j key"
  using assms
  by (auto simp: jwt_encode_def Let_def sum_bind_Inr compact_jws_def split: if_splits)

lemma jwt_encode_ok:
  assumes "dict_to_json (convert_time_claims payload) = Inr j"
    and "map_of (convert_time_claims payload) ''iss'' = Some (PStr s)"
  shows "jwt_encode payload key = Inr (compact_jws j key)"
  using assms by (simp add: jwt_encode_def Let_def sum_bind_simps compact_jws_def)

subsection \<open>Clock and timestamps\<close>

lemma datetime_add_Inr: "datetime_add now (timedelta_hours 24) = Inr e \<longleftrightarrow> clock_ok now \<and> e = now + timedelta_hours 24"
  by (auto simp: datetime_add_def clock_ok_def Let_def)

lemma datetime_add_Inl: "\<not> clock_ok now \<Longrightarrow> datetime_add now (timedelta_hours 24) = Inl OverflowError"
  by (auto simp: datetime_add_def clock_ok_def Let_def)

lemma timegm_expiry: "timegm (now + timedelta_hours 24) = timegm now + 86400"
proof -
  have "now + timedelta_hours 24 = now + 86400 * 1000000" by (simp add: timedelta_hours_def)
  then show ?thesis by (simp add: timegm_def)
qed

lemma to_json_small_int:
  assumes "\<bar>i\<bar> < 10 ^ 12"
  shows "to_json (PInt i) = Inr (JInt i)"
proof -
  have "12 \<le> int_max_str_digits" by (simp add: int_max_str_digits_def)
  then have "(10::int) ^ 12 \<le> 10 ^ int_max_str_digits" by (intro power_increasing) simp_all
  with assms have "\<not> 10 ^ int_max_str_digits \<le> \<bar>i\<bar>" by linarith
  then show ?thesis by simp
qed

lemma timegm_small:
  assumes "clock_ok now"
  shows "\<bar>timegm now\<bar> < 10 ^ 12" and "\<bar>timegm now + 86400\<bar> < 10 ^ 12"
proof -
  from assms have a: "- 62135596800 * 1000000 \<le> now + 86400 * 1000000"
    and b: "now + 86400 * 1000000 \<le> 253402300799 * 1000000 + 999999"
    by (simp_all add: clock_ok_def datetime_min_def datetime_max_def timedelta_hours_def)
  have lo: "- 62135683200 \<le> now div 1000000"
  proof -
    from a have "(- 62135683200) * 1000000 \<le> now" by simp
    then have "((- 62135683200) * 1000000) div 1000000 \<le> now div 1000000"
      by (rule zdiv_mono1) simp
    then show ?thesis by simp
  qed
  have hi: "now div 1000000 \<le> 253402214399"
  proof -
    from b have "now \<le> 253402214399 * 1000000 + 999999" by simp
    then have "now div 1000000 \<le> (253402214399 * 1000000 + 999999) div 1000000"
      by (rule zdiv_mono1) simp
    then show ?thesis by simp
  qed
  from lo hi show "\<bar>timegm now\<bar> < 10 ^ 12" "\<bar>timegm now + 86400\<bar> < 10 ^ 12"
    by (simp_all add: timegm_def)
qed

lemma convert_entry:
  "k \<notin> {''exp'', ''iat'', ''nbf''} \<Longrightarrow>
   (case v of PDatetime d \<Rightarrow> if k \<in> {''exp'', ''iat'', ''nbf''} then PInt (timegm d) else v | _ \<Rightarrow> v) = v"
  by (cases v) simp_all

subsection \<open>The payload as JSON\<close>

lemma convert_time_claims_Nil: "convert_time_claims [] = []"
  by (simp add: convert_time_claims_def)

lemma convert_time_claims_Cons:
  "convert_time_claims ((k, v) # r) =
     (k, if k \<in> {''exp'', ''iat'', ''nbf''}
         then (case v of PDatetime d \<Rightarrow> PInt (timegm d) | _ \<Rightarrow> v) else v) #
     convert_time_claims r"
  by (cases v) (simp_all add: convert_time_claims_def)

lemma dict_to_json_Nil: "dict_to_json [] = Inr (JObj [])"
  by (simp add: dict_to_json_def)

lemma map_sum_Inr: "map_sum f g x = Inr y \<longleftrightarrow> (\<exists>z. x = Inr z \<and> y = g z)"
  by (cases x) auto

lemma map_sum_Inl: "map_sum f g x = Inl y \<longleftrightarrow> (\<exists>z. x = Inl z \<and> y = f z)"
  by (cases x) auto

lemma dict_to_json_Cons_iff:
  "dict_to_json ((k, v) # r) = Inr j' \<longleftrightarrow>
     (\<exists>j kvs. to_json v = Inr j \<and> dict_to_json r = Inr (JObj kvs) \<and> j' = JObj ((k, j) # kvs))"
proof (cases "to_json v")
  case (Inl e)
  then show ?thesis by (simp add: dict_to_json_def)
next
  case (Inr j)
  show ?thesis
  proof (cases "collect (map (\<lambda>(k, v). map_sum id (Pair k) (to_json v)) r)")
    case (Inl e)
    then show ?thesis using Inr by (simp add: dict_to_json_def)
  next
    case (Inr kvs)
    then show ?thesis using \<open>to_json v = Inr j\<close> by (auto simp: dict_to_json_def)
  qed
qed

lemma dict_to_json_Cons_Inr:
  "to_json v = Inr j \<Longrightarrow> dict_to_json r = Inr (JObj kvs) \<Longrightarrow>
   dict_to_json ((k, v) # r) = Inr (JObj ((k, j) # kvs))"
  by (simp add: dict_to_json_Cons_iff)

lemma converted_payload:
  "convert_time_claims (payload_of now u v1 v2 v3 v4 v5 v6) =
         [(''user_id'', v1),
          (''employee_id'', v2),
          (''name'', v3),
          (''email'', v4),
          (''role'', v5),
          (''department'', v6),
          (''jti'', PStr (str_uuid u)),
          (''iss'', PStr JWT_ISSUER),
          (''sub'', v1),
          (''aud'', PList [''ga-ticketing-client'']),
          (''exp'', PInt (timegm now + 86400)),
          (''nbf'', PInt (timegm now)),
          (''iat'', PInt (timegm now))]"
  by (simp add: payload_of_def convert_time_claims_Cons convert_time_claims_Nil timegm_expiry)

lemma payload_iss:
  "map_of (convert_time_claims (payload_of now u v1 v2 v3 v4 v5 v6)) ''iss'' = Some (PStr JWT_ISSUER)"
  by (simp add: converted_payload)

lemma payload_json_ok:
  assumes "clock_ok now"
    and "to_json v1 = Inr j1" "to_json v2 = Inr j2" "to_json v3 = Inr j3"
    and "to_json v4 = Inr j4" "to_json v5 = Inr j5" "to_json v6 = Inr j6"
  shows "dict_to_json (convert_time_claims (payload_of now u v1 v2 v3 v4 v5 v6)) =
         Inr (token_claims now u j1 j2 j3 j4 j5 j6)"
  unfolding converted_payload token_claims_def
  by (intro dict_to_json_Cons_Inr assms(2-) to_json_small_int timegm_small[OF assms(1)])
     (simp_all add: dict_to_json_Nil)

lemma payload_json_Inr:
  assumes "clock_ok now"
    and "dict_to_json (convert_time_claims (payload_of now u v1 v2 v3 v4 v5 v6)) = Inr j"
  shows "\<exists>j1 j2 j3 j4 j5 j6. to_json v1 = Inr j1 \<and> to_json v2 = Inr j2 \<and> to_json v3 = Inr j3 \<and>
           to_json v4 = Inr j4 \<and> to_json v5 = Inr j5 \<and> to_json v6 = Inr j6 \<and>
           j = token_claims now u j1 j2 j3 j4 j5 j6"
proof -
  from assms(2) obtain j1 j2 j3 j4 j5 j6 where
    t: "to_json v1 = Inr j1" "to_json v2 = Inr j2" "to_json v3 = Inr j3"
       "to_json v4 = Inr j4" "to_json v5 = Inr j5" "to_json v6 = Inr j6"
    unfolding converted_payload dict_to_json_Cons_iff by blast
  from payload_json_ok[OF assms(1) t, of u] assms(2) show ?thesis using t by auto
qed

subsection \<open>What \<open>generate_token\<close> returns\<close>

lemma generate_token_payload:
  "generate_token now u p = Inr tok \<longleftrightarrow>
     (clock_ok now \<and>
      (\<exists>v1 v2 v3 v4 v5 v6.
         p ''id'' = Some v1 \<and> p ''employee_id'' = Some v2 \<and> p ''name'' = Some v3 \<and>
         p ''email'' = Some v4 \<and> p ''role'' = Some v5 \<and> p ''department'' = Some v6 \<and>
         jwt_encode (payload_of now u v1 v2 v3 v4 v5 v6) JWT_SECRET = Inr tok))"
  unfolding generate_token_def payload_of_def sum_bind_Inr getitem_Inr datetime_add_Inr
  by auto

lemma generate_token_ok:
  assumes "clock_ok now"
    and "p ''id'' = Some v1" "p ''employee_id'' = Some v2" "p ''name'' = Some v3"
    and "p ''email'' = Some v4" "p ''role'' = Some v5" "p ''department'' = Some v6"
    and "to_json v1 = Inr j1" "to_json v2 = Inr j2" "to_json v3 = Inr j3"
    and "to_json v4 = Inr j4" "to_json v5 = Inr j5" "to_json v6 = Inr j6"
  shows "generate_token now u p = Inr (compact_jws (token_claims now u j1 j2 j3 j4 j5 j6) JWT_SECRET)"
proof -
  have "jwt_encode (payload_of now u v1 v2 v3 v4 v5 v6) JWT_SECRET =
        Inr (compact_jws (token_claims now u j1 j2 j3 j4 j5 j6) JWT_SECRET)"
    by (rule jwt_encode_ok[OF payload_json_ok[OF assms(1) assms(8-13)] payload_iss])
  then show ?thesis
    unfolding generate_token_payload using assms(1-7) by blast
qed

lemma generate_token_Inr:
  assumes "generate_token now u p = Inr tok"
  shows "clock_ok now \<and>
     (\<exists>v1 v2 v3 v4 v5 v6 j1 j2 j3 j4 j5 j6.
         p ''id'' = Some v1 \<and> p ''employee_id'' = Some v2 \<and> p ''name'' = Some v3 \<and>
         p ''email'' = Some v4 \<and> p ''role'' = Some v5 \<and> p ''department'' = Some v6 \<and>
         to_json v1 = Inr j1 \<and> to_json v2 = Inr j2 \<and> to_json v3 = Inr j3 \<and>
         to_json v4 = Inr j4 \<and> to_json v5 = Inr j5 \<and> to_json v6 = Inr j6 \<and>
         tok = compact_jws (token_claims now u j1 j2 j3 j4 j5 j6) JWT_SECRET)"
proof -
  from assms obtain v1 v2 v3 v4 v5 v6 where ok: "clock_ok now"
    and p: "p ''id'' = Some v1" "p ''employee_id'' = Some v2" "p ''name'' = Some v3"
      "p ''email'' = Some v4" "p ''role'' = Some v5" "p ''department'' = Some v6"
    and e: "jwt_encode (payload_of now u v1 v2 v3 v4 v5 v6) JWT_SECRET = Inr tok"
    unfolding generate_token_payload by blast
  from jwt_encode_Inr[OF e] obtain j where
    j: "dict_to_json (convert_time_claims (payload_of now u v1 v2 v3 v4 v5 v6)) = Inr j"
      "tok = compact_jws j JWT_SECRET" by blast
  from payload_json_Inr[OF ok j(1)] obtain j1 j2 j3 j4 j5 j6 where
    "to_json v1 = Inr j1" "to_json v2 = Inr j2" "to_json v3 = Inr j3"
    "to_json v4 = Inr j4" "to_json v5 = Inr j5" "to_json v6 = Inr j6"
    "j = token_claims now u j1 j2 j3 j4 j5 j6" by blast
  with ok p j(2) show ?thesis by blast
qed

lemma claim_compact_jws:
  "claim k (compact_jws (JObj kvs) key) = map_of kvs k"
  by (simp add: claim_def decode_payload_compact_jws)

lemma claims_of_token:
  fixes now u j1 j2 j3 j4 j5 j6
  defines "tok \<equiv> compact_jws (token_claims now u j1 j2 j3 j4 j5 j6) JWT_SECRET"
  shows "claim ''user_id'' tok = Some j1"
    and "claim ''employee_id'' tok = Some j2"
    and "claim ''name'' tok = Some j3"
    and "claim ''email'' tok = Some j4"
    and "claim ''role'' tok = Some j5"
    and "claim ''department'' tok = Some j6"
    and "claim ''jti'' tok = Some (JStr (str_uuid u))"
    and "claim ''iss'' tok = Some (JStr JWT_ISSUER)"
    and "claim ''sub'' tok = Some j1"
    and "claim ''aud'' tok = Some (JArr [JStr ''ga-ticketing-client''])"
    and "claim ''exp'' tok = Some (JInt (timegm now + 86400))"
    and "claim ''nbf'' tok = Some (JInt (timegm now))"
    and "claim ''iat'' tok = Some (JInt (timegm now))"
  unfolding tok_def token_claims_def claim_compact_jws by simp_all

subsection \<open>\<open>str(uuid)\<close> is injective\<close>

lemma hexdigit_inj: "a < 16 \<Longrightarrow> b < 16 \<Longrightarrow> hexdigit a = hexdigit b \<Longrightarrow> a = b"
  by (metis hexval_hexdigit option.inject)

lemma length_hex_fixed: "length (hex_fixed k n) = k"
  by (induction k arbitrary: n) simp_all

lemma hex_fixed_inj:
  "hex_fixed k n = hex_fixed k m \<Longrightarrow> n mod 16 ^ k = m mod 16 ^ k"
proof (induction k arbitrary: n m)
  case 0
  show ?case by simp
next
  case (Suc k)
  from Suc.prems have a: "hex_fixed k (n div 16) = hex_fixed k (m div 16)"
    and b: "hexdigit (n mod 16) = hexdigit (m mod 16)" by simp_all
  have d: "n mod 16 = m mod 16" by (rule hexdigit_inj[OF _ _ b]) simp_all
  have ih: "n div 16 mod 16 ^ k = m div 16 mod 16 ^ k" by (rule Suc.IH[OF a])
  have "n mod (16 * 16 ^ k) = 16 * (n div 16 mod 16 ^ k) + n mod 16"
    by (rule mod_mult2_eq)
  moreover have "m mod (16 * 16 ^ k) = 16 * (m div 16 mod 16 ^ k) + m mod 16"
    by (rule mod_mult2_eq)
  ultimately have "n mod (16 * 16 ^ k) = m mod (16 * 16 ^ k)" using d ih by (simp only:)
  then show ?case by (simp only: power_Suc)
qed

lemma uuid_pieces:
  "take 8 h @ take 4 (drop 8 h) @ take 4 (drop 12 h) @ take 4 (drop 16 h) @ drop 20 h = h"
proof -
  have e: "drop 20 h = drop 4 (drop 16 h)" "drop 16 h = drop 4 (drop 12 h)"
    "drop 12 h = drop 4 (drop 8 h)" by simp_all
  have "take 4 (drop 16 h) @ drop 20 h = drop 16 h"
    unfolding e(1) by (rule append_take_drop_id)
  then have "take 4 (drop 12 h) @ take 4 (drop 16 h) @ drop 20 h = drop 12 h"
    using append_take_drop_id[of 4 "drop 12 h"] e(2) by (simp only:)
  then have "take 4 (drop 8 h) @ take 4 (drop 12 h) @ take 4 (drop 16 h) @ drop 20 h = drop 8 h"
    using append_take_drop_id[of 4 "drop 8 h"] e(3) by (simp only:)
  then show ?thesis using append_take_drop_id[of 8 h] by (simp only:)
qed

lemma str_uuid_hex:
  assumes "str_uuid u = str_uuid u'"
  shows "hex_fixed 32 (unat u) = hex_fixed 32 (unat u')"
proof -
  define h where "h = hex_fixed 32 (unat u)"
  define h' where "h' = hex_fixed 32 (unat u')"
  have l: "length h = 32" "length h' = 32" by (simp_all add: h_def h'_def length_hex_fixed)
  from assms have
    "take 8 h @ CHR ''-'' # take 4 (drop 8 h) @ CHR ''-'' # take 4 (drop 12 h) @ CHR ''-'' #
       take 4 (drop 16 h) @ CHR ''-'' # drop 20 h =
     take 8 h' @ CHR ''-'' # take 4 (drop 8 h') @ CHR ''-'' # take 4 (drop 12 h') @ CHR ''-'' #
       take 4 (drop 16 h') @ CHR ''-'' # drop 20 h'"
    by (simp add: str_uuid_def Let_def h_def h'_def)
  then have p: "take 8 h = take 8 h'" "take 4 (drop 8 h) = take 4 (drop 8 h')"
    "take 4 (drop 12 h) = take 4 (drop 12 h')" "take 4 (drop 16 h) = take 4 (drop 16 h')"
    "drop 20 h = drop 20 h'"
    using l by simp_all
  have "h = take 8 h @ take 4 (drop 8 h) @ take 4 (drop 12 h) @ take 4 (drop 16 h) @ drop 20 h"
    by (rule uuid_pieces[symmetric])
  also have "\<dots> = take 8 h' @ take 4 (drop 8 h') @ take 4 (drop 12 h') @ take 4 (drop 16 h') @ drop 20 h'"
    by (simp only: p)
  also have "\<dots> = h'" by (rule uuid_pieces)
  finally show ?thesis by (simp only: h_def h'_def)
qed

lemma str_uuid_inj: "str_uuid u = str_uuid u' \<Longrightarrow> u = u'"
proof -
  assume "str_uuid u = str_uuid u'"
  then have "unat u mod 16 ^ 32 = unat u' mod 16 ^ 32"
    by (intro hex_fixed_inj str_uuid_hex)
  moreover have "(16::nat) ^ 32 = 2 ^ 128" by simp
  moreover have "unat u < 2 ^ 128" "unat u' < 2 ^ 128"
    using unsigned_less[of u, where 'a=nat] unsigned_less[of u', where 'a=nat] by simp_all
  ultimately have "unat u = unat u'" by simp
  then show "u = u'" by (rule word_unat_eq_iff[THEN iffD2])
qed

subsection \<open>The run of \<open>main\<close>\<close>

lemma upper_roles:
  "upper ''requester'' = ''REQUESTER''" "upper ''approver'' = ''APPROVER''" "upper ''admin'' = ''ADMIN''"
  by (simp_all add: upper_def char_of_eq_iff_nat)

lemma attempt_simps:
  "generate_token (utcnow e 0) (uuid4 e 0) (profile_of (snd (users ! 0))) = attempt e 0"
  "generate_token (utcnow e (Suc 0)) (uuid4 e (Suc 0)) (profile_of (snd (users ! 1))) = attempt e 1"
  "generate_token (utcnow e (Suc (Suc 0))) (uuid4 e (Suc (Suc 0))) (profile_of (snd (users ! 2))) = attempt e 2"
  by (simp_all add: attempt_def user_profile_def numeral_2_eq_2)

lemma main_ok:
  assumes "attempt e 0 = Inr t1" "attempt e 1 = Inr t2" "attempt e 2 = Inr t3"
  shows "main e w =
     (Inr (),
      \<lparr>stdout = stdout w @ header_lines @ role_block 0 t1 @ role_block 1 t2 @ role_block 2 t3 @
                 footer_lines t1 t2 t3,
       files = (files w)(''test_tokens.json'' \<mapsto>
                 dumps_indent2 (tokens_json [(''requester'', t1), (''approver'', t2), (''admin'', t3)]))\<rparr>)"
  using assms
  unfolding attempt_def user_profile_def
  by (simp add: main_def users_def Let_def print_line_def getitem_def header_lines_def
      role_block_def footer_lines_def upper_roles numeral_2_eq_2)

lemma main_fail0:
  assumes "attempt e 0 = Inl err"
  shows "main e w = (Inl err, \<lparr>stdout = stdout w @ header_lines, files = files w\<rparr>)"
  using assms unfolding attempt_def user_profile_def
  by (simp add: main_def users_def Let_def print_line_def header_lines_def)

lemma main_fail1:
  assumes "attempt e 0 = Inr t1" "attempt e 1 = Inl err"
  shows "main e w =
     (Inl err, \<lparr>stdout = stdout w @ header_lines @ role_block 0 t1, files = files w\<rparr>)"
  using assms unfolding attempt_def user_profile_def
  by (simp add: main_def users_def Let_def print_line_def getitem_def header_lines_def
      role_block_def upper_roles)

lemma main_fail2:
  assumes "attempt e 0 = Inr t1" "attempt e 1 = Inr t2" "attempt e 2 = Inl err"
  shows "main e w =
     (Inl err,
      \<lparr>stdout = stdout w @ header_lines @ role_block 0 t1 @ role_block 1 t2, files = files w\<rparr>)"
  using assms unfolding attempt_def user_profile_def
  by (simp add: main_def users_def Let_def print_line_def getitem_def header_lines_def
      role_block_def upper_roles numeral_2_eq_2)

lemma main_fail:
  assumes "i < 3" "attempt e i = Inl err"
  shows "\<exists>err'. fst (main e w) = Inl err' \<and> files (snd (main e w)) = files w"
proof -
  from assms(1) consider "i = 0" | "i = 1" | "i = 2" by linarith
  then show ?thesis
  proof cases
    case 1
    then show ?thesis using main_fail0[of e err w] assms(2) by simp
  next
    case 2
    show ?thesis
    proof (cases "attempt e 0")
      case (Inl a)
      then show ?thesis using main_fail0[of e a w] by simp
    next
      case (Inr t1)
      then show ?thesis using main_fail1[of e t1 err w] assms(2) 2 by simp
    qed
  next
    case 3
    show ?thesis
    proof (cases "attempt e 0")
      case (Inl a)
      then show ?thesis using main_fail0[of e a w] by simp
    next
      case (Inr t1)
      note r0 = this
      show ?thesis
      proof (cases "attempt e 1")
        case (Inl a)
        then show ?thesis using main_fail1[of e t1 a w] r0 by simp
      next
        case (Inr t2)
        then show ?thesis using main_fail2[of e t1 t2 err w] r0 assms(2) 3 by simp
      qed
    qed
  qed
qed

lemma main_Inr:
  assumes "fst (main e w) = Inr x"
  shows "\<exists>t1 t2 t3. attempt e 0 = Inr t1 \<and> attempt e 1 = Inr t2 \<and> attempt e 2 = Inr t3"
proof -
  have "\<not> isl (attempt e i)" if "i < 3" for i
  proof
    assume "isl (attempt e i)"
    then obtain err where "attempt e i = Inl err" by (cases "attempt e i") auto
    from main_fail[OF that this, of w] assms show False by auto
  qed
  then have "\<not> isl (attempt e 0)" "\<not> isl (attempt e 1)" "\<not> isl (attempt e 2)" by simp_all
  then show ?thesis
    by (cases "attempt e 0"; cases "attempt e 1"; cases "attempt e 2") auto
qed

lemma to_json_PStr: "to_json (PStr s) = Inr (JStr s)"
  by simp

lemma user_profile_fields:
  "user_profile 0 ''id'' = Some (PStr ''req-001'')"
  "user_profile 0 ''employee_id'' = Some (PStr ''EMP001'')"
  "user_profile 0 ''name'' = Some (PStr ''John Requester'')"
  "user_profile 0 ''email'' = Some (PStr ''john.requester@company.com'')"
  "user_profile 0 ''role'' = Some (PStr ''requester'')"
  "user_profile 0 ''department'' = Some (PStr ''IT'')"
  "user_profile 1 ''id'' = Some (PStr ''app-001'')"
  "user_profile 1 ''employee_id'' = Some (PStr ''EMP002'')"
  "user_profile 1 ''name'' = Some (PStr ''Jane Approver'')"
  "user_profile 1 ''email'' = Some (PStr ''jane.approver@company.com'')"
  "user_profile 1 ''role'' = Some (PStr ''approver'')"
  "user_profile 1 ''department'' = Some (PStr ''Finance'')"
  "user_profile 2 ''id'' = Some (PStr ''adm-001'')"
  "user_profile 2 ''employee_id'' = Some (PStr ''EMP003'')"
  "user_profile 2 ''name'' = Some (PStr ''Admin User'')"
  "user_profile 2 ''email'' = Some (PStr ''admin@company.com'')"
  "user_profile 2 ''role'' = Some (PStr ''admin'')"
  "user_profile 2 ''department'' = Some (PStr ''GA'')"
  by (simp_all add: user_profile_def users_def profile_of_def)

lemma user_token:
  assumes "i < 3" "clock_ok now"
  shows "generate_token now u (user_profile i) = Inr (compact_jws (user_claims i now u) JWT_SECRET)"
proof -
  note ok = generate_token_ok[OF assms(2) _ _ _ _ _ _ to_json_PStr to_json_PStr to_json_PStr
      to_json_PStr to_json_PStr to_json_PStr, of _ _ _ _ _ _ _ u]
  from assms(1) consider "i = 0" | "i = 1" | "i = 2" by linarith
  then show ?thesis
  proof cases
    case 1
    then show ?thesis
      using ok[OF user_profile_fields(1-6)] by (simp add: user_claims_def)
  next
    case 2
    then show ?thesis
      using ok[OF user_profile_fields(7-12)] by (simp add: user_claims_def)
  next
    case 3
    then show ?thesis
      using ok[OF user_profile_fields(13-18)] by (simp add: user_claims_def)
  qed
qed

lemma user_token_fail:
  assumes "\<not> clock_ok now"
  shows "generate_token now u p = Inl OverflowError"
  by (simp add: generate_token_def datetime_add_Inl[OF assms] sum_bind_simps)

lemma attempt_ok:
  "i < 3 \<Longrightarrow> clock_ok (utcnow e i) \<Longrightarrow>
   attempt e i = Inr (compact_jws (user_claims i (utcnow e i) (uuid4 e i)) JWT_SECRET)"
  unfolding attempt_def by (rule user_token)

section \<open>The claims of the specification\<close>

lemma clock_ok_example: "clock_ok example_now"
  by (simp add: clock_ok_def example_now_def datetime_min_def datetime_max_def timedelta_hours_def)

text \<open>
  C1. For every token that \<open>generate_token\<close> returns, the decoded \<^verbatim>\<open>nbf\<close>, \<^verbatim>\<open>iat\<close> and
  \<^verbatim>\<open>exp\<close> are integers with \<^verbatim>\<open>nbf\<close> \<open>\<le>\<close> \<^verbatim>\<open>iat\<close> \<open>\<le>\<close> \<^verbatim>\<open>exp\<close>; \<^verbatim>\<open>iat\<close> and \<^verbatim>\<open>nbf\<close> are both the
  one clock reading of the call, as the epoch second it falls in (\<^verbatim>\<open>timegm\<close>), and \<^verbatim>\<open>exp\<close>
  is exactly 86400 seconds later.
\<close>

theorem generate_token_timestamps:
  assumes "generate_token now u user_info = Inr token"
  shows "\<exists>nbf iat exp.
           claim ''nbf'' token = Some (JInt nbf) \<and>
           claim ''iat'' token = Some (JInt iat) \<and>
           claim ''exp'' token = Some (JInt exp) \<and>
           nbf \<le> iat \<and> iat \<le> exp \<and>
           iat = timegm now \<and> nbf = timegm now \<and> exp - iat = 86400"
proof -
  from generate_token_Inr[OF assms] obtain j1 j2 j3 j4 j5 j6 where
    "token = compact_jws (token_claims now u j1 j2 j3 j4 j5 j6) JWT_SECRET" by blast
  then show ?thesis by (simp add: claims_of_token)
qed

theorem generate_token_timestamps_witness:
  "\<exists>token. generate_token example_now example_uuid (user_profile 2) = Inr token \<and>
     claim ''nbf'' token = Some (JInt 1700000000) \<and>
     claim ''iat'' token = Some (JInt 1700000000) \<and>
     claim ''exp'' token = Some (JInt 1700086400)"
proof -
  let ?t = "compact_jws (user_claims 2 example_now example_uuid) JWT_SECRET"
  have g: "generate_token example_now example_uuid (user_profile 2) = Inr ?t"
    by (rule user_token[OF _ clock_ok_example]) simp
  have tg: "timegm example_now = 1700000000" by (simp add: timegm_def example_now_def)
  from generate_token_timestamps[OF g] tg have
    "claim ''nbf'' ?t = Some (JInt 1700000000) \<and> claim ''iat'' ?t = Some (JInt 1700000000) \<and>
     claim ''exp'' ?t = Some (JInt 1700086400)"
    by auto
  with g show ?thesis by blast
qed

lemma jti_of_token:
  assumes "generate_token now u user_info = Inr token"
  shows "claim ''jti'' token = Some (JStr (str_uuid u))"
proof -
  from generate_token_Inr[OF assms] obtain j1 j2 j3 j4 j5 j6 where
    "token = compact_jws (token_claims now u j1 j2 j3 j4 j5 j6) JWT_SECRET" by blast
  then show ?thesis by (simp add: claims_of_token)
qed

lemma example_uuids_differ: "example_uuid \<noteq> example_uuid2"
  by (simp add: example_uuid_def example_uuid2_def)

text \<open>
  C9. Every token that \<open>generate_token\<close> returns carries a \<^verbatim>\<open>jti\<close> claim, the text of the
  UUID drawn in the call; two calls that draw different UUIDs, whatever their profiles and
  clock readings (so also the calls for one role in two successive runs), return tokens
  whose decoded \<^verbatim>\<open>jti\<close> differ.
\<close>

theorem jti_unique:
  assumes "generate_token now1 u1 user_info1 = Inr token1"
    and "generate_token now2 u2 user_info2 = Inr token2"
    and "u1 \<noteq> u2"
  shows "claim ''jti'' token1 = Some (JStr (str_uuid u1)) \<and>
         claim ''jti'' token2 = Some (JStr (str_uuid u2)) \<and>
         claim ''jti'' token1 \<noteq> claim ''jti'' token2"
  using jti_of_token[OF assms(1)] jti_of_token[OF assms(2)] assms(3) str_uuid_inj by auto

theorem jti_unique_witness:
  "\<exists>token1 token2.
     generate_token example_now example_uuid (user_profile 0) = Inr token1 \<and>
     generate_token example_now example_uuid2 (user_profile 0) = Inr token2 \<and>
     claim ''jti'' token1 \<noteq> claim ''jti'' token2"
proof -
  have g1: "generate_token example_now example_uuid (user_profile 0) =
            Inr (compact_jws (user_claims 0 example_now example_uuid) JWT_SECRET)"
    by (rule user_token[OF _ clock_ok_example]) simp
  have g2: "generate_token example_now example_uuid2 (user_profile 0) =
            Inr (compact_jws (user_claims 0 example_now example_uuid2) JWT_SECRET)"
    by (rule user_token[OF _ clock_ok_example]) simp
  from jti_unique[OF g1 g2 example_uuids_differ] g1 g2 show ?thesis by blast
qed

text \<open>
  C6, as stated, fails: two calls with the same profile and the same clock reading that
  draw different UUIDs return different tokens.
\<close>

theorem same_time_different_token_counterexample:
  "generate_token example_now example_uuid (user_profile 2) \<noteq>
   generate_token example_now example_uuid2 (user_profile 2)"
proof
  assume eq: "generate_token example_now example_uuid (user_profile 2) =
              generate_token example_now example_uuid2 (user_profile 2)"
  let ?t1 = "compact_jws (user_claims 2 example_now example_uuid) JWT_SECRET"
  let ?t2 = "compact_jws (user_claims 2 example_now example_uuid2) JWT_SECRET"
  have g1: "generate_token example_now example_uuid (user_profile 2) = Inr ?t1"
    by (rule user_token[OF _ clock_ok_example]) simp
  have g2: "generate_token example_now example_uuid2 (user_profile 2) = Inr ?t2"
    by (rule user_token[OF _ clock_ok_example]) simp
  from eq g1 g2 have "?t1 = ?t2" by simp
  then have "claim ''jti'' ?t1 = claim ''jti'' ?t2" by simp
  then have "str_uuid example_uuid = str_uuid example_uuid2"
    using jti_of_token[OF g1] jti_of_token[OF g2] by simp
  then show False using str_uuid_inj example_uuids_differ by blast
qed

lemma generate_token_call_result:
  "fst (generate_token_call e user_info s) =
   generate_token (utcnow e (clock_reads s)) (uuid4 e (uuid_draws s)) user_info"
  by (simp add: generate_token_call_def generate_token_def datetime_utcnow_def uuid_uuid4_def
      sum_bind_def split: sum.splits)

lemma generate_token_call_state:
  "stdout (snd (generate_token_call e user_info s)) = stdout s"
  "files (snd (generate_token_call e user_info s)) = files s"
  "clock_reads (snd (generate_token_call e user_info s)) = Suc (clock_reads s)"
  "uuid_draws s \<le> uuid_draws (snd (generate_token_call e user_info s))"
  "uuid_draws (snd (generate_token_call e user_info s)) \<le> Suc (uuid_draws s)"
  by (simp_all add: generate_token_call_def datetime_utcnow_def uuid_uuid4_def split: sum.splits)

lemma generate_token_draw_inj:
  assumes "generate_token now u1 user_info = Inr token"
  shows "generate_token now u2 user_info = Inr token \<longleftrightarrow> u1 = u2"
proof
  assume "generate_token now u2 user_info = Inr token"
  then have "str_uuid u1 = str_uuid u2"
    using jti_of_token[OF assms] jti_of_token[of now u2 user_info token] by simp
  then show "u1 = u2" by (rule str_uuid_inj)
next
  assume "u1 = u2"
  with assms show "generate_token now u2 user_info = Inr token" by simp
qed

text \<open>
  C6, amended. A call of \<open>generate_token\<close> prints nothing and writes no file: all it takes
  from its surroundings is one clock reading and at most one UUID draw. Its result is the
  function \<open>generate_token\<close> of the profile, that clock reading and that draw, and of
  nothing else in the state. So two calls with the same profile that read the same time,
  in whatever states, return the same result when they draw the same UUID; and when one
  of them returns a token, the other returns that token exactly when it drew the same
  UUID, so that different draws give different tokens.
\<close>

theorem token_determined_by_draw:
  assumes "utcnow e1 (clock_reads s1) = utcnow e2 (clock_reads s2)"
  shows "stdout (snd (generate_token_call e1 user_info s1)) = stdout s1 \<and>
         files (snd (generate_token_call e1 user_info s1)) = files s1 \<and>
         clock_reads (snd (generate_token_call e1 user_info s1)) = Suc (clock_reads s1) \<and>
         uuid_draws s1 \<le> uuid_draws (snd (generate_token_call e1 user_info s1)) \<and>
         uuid_draws (snd (generate_token_call e1 user_info s1)) \<le> Suc (uuid_draws s1) \<and>
         fst (generate_token_call e1 user_info s1) =
           generate_token (utcnow e1 (clock_reads s1)) (uuid4 e1 (uuid_draws s1)) user_info \<and>
         (uuid4 e1 (uuid_draws s1) = uuid4 e2 (uuid_draws s2) \<longrightarrow>
            fst (generate_token_call e1 user_info s1) = fst (generate_token_call e2 user_info s2)) \<and>
         (\<forall>token. fst (generate_token_call e1 user_info s1) = Inr token \<longrightarrow>
            (fst (generate_token_call e2 user_info s2) = Inr token \<longleftrightarrow>
             uuid4 e1 (uuid_draws s1) = uuid4 e2 (uuid_draws s2)))"
proof -
  let ?now = "utcnow e1 (clock_reads s1)"
  have r1: "fst (generate_token_call e1 user_info s1) =
            generate_token ?now (uuid4 e1 (uuid_draws s1)) user_info"
    by (rule generate_token_call_result)
  have r2: "fst (generate_token_call e2 user_info s2) =
            generate_token ?now (uuid4 e2 (uuid_draws s2)) user_info"
    unfolding assms by (rule generate_token_call_result)
  have same: "uuid4 e1 (uuid_draws s1) = uuid4 e2 (uuid_draws s2) \<longrightarrow>
            fst (generate_token_call e1 user_info s1) = fst (generate_token_call e2 user_info s2)"
    unfolding r1 r2 by simp
  have diff: "\<forall>token. fst (generate_token_call e1 user_info s1) = Inr token \<longrightarrow>
            (fst (generate_token_call e2 user_info s2) = Inr token \<longleftrightarrow>
             uuid4 e1 (uuid_draws s1) = uuid4 e2 (uuid_draws s2))"
    unfolding r1 r2 by (intro allI impI) (rule generate_token_draw_inj)
  from generate_token_call_state[where e = e1 and user_info = user_info and s = s1] r1 same diff
  show ?thesis
    by (intro conjI)
qed

theorem token_determined_by_draw_witness:
  "stdout (snd (generate_token_call example_env (user_profile 1) later_process)) =
     [''REQUESTER USER:''] \<and>
   files (snd (generate_token_call example_env (user_profile 1) later_process)) =
     [''test_tokens.json'' \<mapsto> ''{}''] \<and>
   clock_reads (snd (generate_token_call example_env (user_profile 1) later_process)) = 2 \<and>
   (\<exists>token. fst (generate_token_call example_env (user_profile 1) example_process) = Inr token \<and>
      fst (generate_token_call example_env (user_profile 1) other_process) = Inr token \<and>
      fst (generate_token_call example_env (user_profile 1) later_process) \<noteq> Inr token)"
proof -
  have t: "utcnow example_env (clock_reads later_process) =
           utcnow example_env (clock_reads example_process)"
       "utcnow example_env (clock_reads example_process) =
           utcnow example_env (clock_reads other_process)"
       "utcnow example_env (clock_reads example_process) =
           utcnow example_env (clock_reads later_process)"
    by (simp_all add: example_env_def)
  note a = token_determined_by_draw[OF t(1), of "user_profile 1"]
  note b = token_determined_by_draw[OF t(2), of "user_profile 1"]
  note c = token_determined_by_draw[OF t(3), of "user_profile 1"]
  have s: "stdout (snd (generate_token_call example_env (user_profile 1) later_process)) =
             [''REQUESTER USER:'']"
    "files (snd (generate_token_call example_env (user_profile 1) later_process)) =
       [''test_tokens.json'' \<mapsto> ''{}'']"
    "clock_reads (snd (generate_token_call example_env (user_profile 1) later_process)) = 2"
    using a by (simp_all add: later_process_def)
  let ?token = "compact_jws (user_claims 1 example_now example_uuid) JWT_SECRET"
  have g: "generate_token example_now example_uuid (user_profile 1) = Inr ?token"
    by (rule user_token[OF _ clock_ok_example]) simp
  have u: "utcnow example_env (clock_reads example_process) = example_now"
    "uuid4 example_env (uuid_draws example_process) = example_uuid"
    "uuid4 example_env (uuid_draws other_process) = example_uuid"
    "uuid4 example_env (uuid_draws later_process) = example_uuid + 1"
    by (simp_all add: example_env_def example_process_def other_process_def later_process_def)
  have r1: "fst (generate_token_call example_env (user_profile 1) example_process) = Inr ?token"
    using b g unfolding u by simp
  have r2: "fst (generate_token_call example_env (user_profile 1) other_process) = Inr ?token"
    using b r1 unfolding u by simp
  have r3: "fst (generate_token_call example_env (user_profile 1) later_process) \<noteq> Inr ?token"
    using c r1 unfolding u by simp
  from r1 r2 r3 have "\<exists>token.
      fst (generate_token_call example_env (user_profile 1) example_process) = Inr token \<and>
      fst (generate_token_call example_env (user_profile 1) other_process) = Inr token \<and>
      fst (generate_token_call example_env (user_profile 1) later_process) \<noteq> Inr token"
    by (intro exI[of _ ?token] conjI)
  with s show ?thesis by (intro conjI)
qed




lemma to_json_values:
  "to_json v = Inr j \<longleftrightarrow>
     (v = PNone \<and> j = JNull) \<or> (\<exists>b. v = PBool b \<and> j = JBool b) \<or>
     (\<exists>i. v = PInt i \<and> \<bar>i\<bar> < 10 ^ int_max_str_digits \<and> j = JInt i) \<or>
     (\<exists>s. v = PStr s \<and> j = JStr s) \<or> (\<exists>xs. v = PList xs \<and> j = JArr (map JStr xs))"
  by (cases v) auto



lemma users_cases:
  assumes "(role, user_info) \<in> set users"
  obtains i where "i < 3" "role = fst (users ! i)" "user_info = snd (users ! i)"
    "profile_of user_info = user_profile i"
proof -
  from assms obtain i where i: "i < length users" "users ! i = (role, user_info)"
    unfolding in_set_conv_nth by blast
  have l: "length users = 3" unfolding users_def by simp
  have a: "i < 3" using i(1) unfolding l .
  have b: "role = fst (users ! i)" "user_info = snd (users ! i)" unfolding i(2) by simp_all
  have c: "profile_of user_info = user_profile i" unfolding user_profile_def b(2) ..
  from a b c show ?thesis by (rule that)
qed

lemma user_claims_fields:
  assumes "i < 3"
  shows "\<exists>j2 j3 j4 j6.
    user_claims i now u =
      token_claims now u (JStr (the (map_of (snd (users ! i)) ''id''))) j2 j3 j4
        (JStr (fst (users ! i))) j6 \<and>
    map_of (snd (users ! i)) ''id'' \<noteq> None \<and>
    map_of (snd (users ! i)) ''role'' = Some (fst (users ! i))"
proof -
  from assms consider "i = 0" | "i = 1" | "i = 2" by linarith
  then show ?thesis
    by cases (simp_all add: user_claims_def users_def, blast+)
qed

text \<open>
  C2. For each profile of the table and every clock reading for which the expiry exists,
  \<open>generate_token\<close> returns a token of three segments separated by dots, the third being
  the base64 of the HMAC-SHA-256, under the secret, of the first two; its decoded payload
  has \<^verbatim>\<open>sub\<close> equal to the profile's \<^verbatim>\<open>id\<close> and \<^verbatim>\<open>role\<close> equal to the profile's
  \<^verbatim>\<open>role\<close> (which is the table's key), \<^verbatim>\<open>aud\<close> equal to \<^verbatim>\<open>["ga-ticketing-client"]\<close> and
  \<^verbatim>\<open>iss\<close> equal to \<^verbatim>\<open>"ga-ticketing-system"\<close>; for the admin profile \<^verbatim>\<open>sub\<close> is
  \<^verbatim>\<open>"adm-001"\<close>.
\<close>

theorem table_profiles_tokens:
  assumes "(role, user_info) \<in> set users" and "clock_ok now"
  shows "\<exists>token h p s.
           generate_token now u (profile_of user_info) = Inr token \<and>
           split_on CHR ''.'' token = [h, p, s] \<and>
           s = base64url_encode (hmac_sha256 JWT_SECRET (h @ ''.'' @ p)) \<and>
           map_of user_info ''id'' \<noteq> None \<and>
           claim ''sub'' token = map_option JStr (map_of user_info ''id'') \<and>
           map_of user_info ''role'' = Some role \<and>
           claim ''role'' token = Some (JStr role) \<and>
           claim ''aud'' token = Some (JArr [JStr ''ga-ticketing-client'']) \<and>
           claim ''iss'' token = Some (JStr ''ga-ticketing-system'') \<and>
           (role = ''admin'' \<longrightarrow> claim ''sub'' token = Some (JStr ''adm-001''))"
proof -
  from assms(1) obtain i where i: "i < 3" "role = fst (users ! i)" "user_info = snd (users ! i)"
    "profile_of user_info = user_profile i" by (rule users_cases)
  from user_claims_fields[OF i(1), of now u] obtain j2 j3 j4 j6 where
    c: "user_claims i now u =
          token_claims now u (JStr (the (map_of user_info ''id''))) j2 j3 j4 (JStr role) j6"
    and f: "map_of user_info ''id'' \<noteq> None" "map_of user_info ''role'' = Some role"
    unfolding i(2,3) by blast
  let ?t = "compact_jws (user_claims i now u) JWT_SECRET"
  have g: "generate_token now u (profile_of user_info) = Inr ?t"
    unfolding i(4) by (rule user_token[OF i(1) assms(2)])
  have seg: "split_on CHR ''.'' ?t =
     [base64url_encode (dumps_compact jwt_header),
      base64url_encode (dumps_compact (user_claims i now u)),
      base64url_encode (hmac_sha256 JWT_SECRET
        (base64url_encode (dumps_compact jwt_header) @ ''.'' @
         base64url_encode (dumps_compact (user_claims i now u))))]"
    by (rule segments_compact_jws)
  have adm: "role = ''admin'' \<longrightarrow> the (map_of user_info ''id'') = ''adm-001''"
    using assms(1) by (auto simp: users_def)
  have cl: "claim ''sub'' ?t = Some (JStr (the (map_of user_info ''id'')))"
    "claim ''role'' ?t = Some (JStr role)"
    "claim ''aud'' ?t = Some (JArr [JStr ''ga-ticketing-client''])"
    "claim ''iss'' ?t = Some (JStr JWT_ISSUER)"
    unfolding c by (rule claims_of_token)+
  from f(1) obtain y where y: "map_of user_info ''id'' = Some y" by blast
  show ?thesis
    using g seg cl f(2) adm by (simp add: JWT_ISSUER_def y)
qed

theorem table_profiles_tokens_witness:
  "\<exists>token h p s.
     generate_token example_now example_uuid (user_profile 2) = Inr token \<and>
     split_on CHR ''.'' token = [h, p, s] \<and>
     claim ''sub'' token = Some (JStr ''adm-001'') \<and>
     claim ''role'' token = Some (JStr ''admin'') \<and>
     claim ''aud'' token = Some (JArr [JStr ''ga-ticketing-client'']) \<and>
     claim ''iss'' token = Some (JStr ''ga-ticketing-system'')"
proof -
  let ?admin = "[(''id'', ''adm-001''), (''employee_id'', ''EMP003''), (''name'', ''Admin User''),
                 (''email'', ''admin@company.com''), (''role'', ''admin''), (''department'', ''GA'')]"
  have m: "(''admin'', ?admin) \<in> set users" by (simp add: users_def)
  have p: "profile_of ?admin = user_profile 2" by (simp add: user_profile_def users_def)
  from table_profiles_tokens[OF m clock_ok_example, of example_uuid]
  show ?thesis unfolding p by auto
qed

lemma example_env_attempts:
  assumes "i < 3"
  shows "attempt example_env i =
         Inr (compact_jws (user_claims i example_now (example_uuid + of_nat i)) JWT_SECRET)"
  using attempt_ok[OF assms, of example_env] clock_ok_example by (simp add: example_env_def)

lemma example_env_main: "fst (main example_env w) = Inr ()"
proof -
  have "attempt example_env 0 = Inr (compact_jws (user_claims 0 example_now (example_uuid + of_nat 0)) JWT_SECRET)"
    "attempt example_env 1 = Inr (compact_jws (user_claims 1 example_now (example_uuid + of_nat 1)) JWT_SECRET)"
    "attempt example_env 2 = Inr (compact_jws (user_claims 2 example_now (example_uuid + of_nat 2)) JWT_SECRET)"
    by (rule example_env_attempts, simp)+
  from main_ok[OF this] show ?thesis by simp
qed

lemma token_loop_ok:
  assumes "attempt e 0 = Inr t1" "attempt e 1 = Inr t2" "attempt e 2 = Inr t3"
  shows "fst (token_loop e 0 users [] w) = Inr [(''requester'', t1), (''approver'', t2), (''admin'', t3)]"
  using assms
  unfolding attempt_def user_profile_def
  by (simp add: users_def Let_def print_line_def getitem_def numeral_2_eq_2)

lemma main_Inr_effect:
  assumes "fst (main e w) = Inr x"
  obtains t1 t2 t3 where "attempt e 0 = Inr t1" "attempt e 1 = Inr t2" "attempt e 2 = Inr t3"
    and "files (snd (main e w)) =
           (files w)(''test_tokens.json'' \<mapsto>
              dumps_indent2 (tokens_json [(''requester'', t1), (''approver'', t2), (''admin'', t3)]))"
    and "stdout (snd (main e w)) =
           stdout w @ header_lines @ role_block 0 t1 @ role_block 1 t2 @ role_block 2 t3 @
           footer_lines t1 t2 t3"
proof -
  from main_Inr[OF assms] obtain t1 t2 t3 where
    a: "attempt e 0 = Inr t1" "attempt e 1 = Inr t2" "attempt e 2 = Inr t3" by blast
  from main_ok[OF a, of w] a show ?thesis by (intro that[of t1 t2 t3]) simp_all
qed

text \<open>
  C3. After every run that ends normally, the dictionary \<^verbatim>\<open>tokens\<close> that the loop has built
  has the keys of the table \<^verbatim>\<open>users\<close>, in the table's order; the file
  \<^verbatim>\<open>test_tokens.json\<close> holds that dictionary, and read back as JSON it is an object whose
  keys are exactly \<^verbatim>\<open>requester\<close>, \<^verbatim>\<open>approver\<close> and \<^verbatim>\<open>admin\<close>, each once.
\<close>

theorem output_roles:
  assumes "fst (main e w) = Inr ()"
  shows "\<exists>tokens content kvs.
           (\<forall>w'. fst (token_loop e 0 users [] w') = Inr tokens) \<and>
           map fst tokens = map fst users \<and>
           files (snd (main e w)) ''test_tokens.json'' = Some content \<and>
           content = dumps_indent2 (tokens_json tokens) \<and>
           json_loads content = Some (JObj kvs) \<and>
           map fst kvs = [''requester'', ''approver'', ''admin''] \<and>
           set (map fst kvs) = set (map fst users) \<and>
           distinct (map fst kvs)"
proof -
  from assms obtain t1 t2 t3 where a: "attempt e 0 = Inr t1" "attempt e 1 = Inr t2" "attempt e 2 = Inr t3"
    and f: "files (snd (main e w)) =
           (files w)(''test_tokens.json'' \<mapsto>
              dumps_indent2 (tokens_json [(''requester'', t1), (''approver'', t2), (''admin'', t3)]))"
    by (rule main_Inr_effect)
  let ?tokens = "[(''requester'', t1), (''approver'', t2), (''admin'', t3)]"
  have l: "json_loads (dumps_indent2 (tokens_json ?tokens)) = Some (tokens_json ?tokens)"
    by (rule json_loads_dumps_indent2)
  have k: "tokens_json ?tokens =
           JObj [(''requester'', JStr t1), (''approver'', JStr t2), (''admin'', JStr t3)]"
    by (simp add: tokens_json_def)
  have u: "map fst users = [''requester'', ''approver'', ''admin'']" by (simp add: users_def)
  have t: "\<forall>w'. fst (token_loop e 0 users [] w') = Inr ?tokens"
    using token_loop_ok[OF a] by blast
  have c: "files (snd (main e w)) ''test_tokens.json'' = Some (dumps_indent2 (tokens_json ?tokens))"
    unfolding f by simp
  have j: "json_loads (dumps_indent2 (tokens_json ?tokens)) =
           Some (JObj [(''requester'', JStr t1), (''approver'', JStr t2), (''admin'', JStr t3)])"
    using l unfolding k .
  have all: "(\<forall>w'. fst (token_loop e 0 users [] w') = Inr ?tokens) \<and>
        map fst ?tokens = map fst users \<and>
        files (snd (main e w)) ''test_tokens.json'' = Some (dumps_indent2 (tokens_json ?tokens)) \<and>
        dumps_indent2 (tokens_json ?tokens) = dumps_indent2 (tokens_json ?tokens) \<and>
        json_loads (dumps_indent2 (tokens_json ?tokens)) =
          Some (JObj [(''requester'', JStr t1), (''approver'', JStr t2), (''admin'', JStr t3)]) \<and>
        map fst [(''requester'', JStr t1), (''approver'', JStr t2), (''admin'', JStr t3)] =
          [''requester'', ''approver'', ''admin''] \<and>
        set (map fst [(''requester'', JStr t1), (''approver'', JStr t2), (''admin'', JStr t3)]) =
          set (map fst users) \<and>
        distinct (map fst [(''requester'', JStr t1), (''approver'', JStr t2), (''admin'', JStr t3)])"
    using t c j by (simp add: u)
  show ?thesis
    by (rule exI[of _ ?tokens], rule exI[of _ "dumps_indent2 (tokens_json ?tokens)"],
        rule exI[of _ "[(''requester'', JStr t1), (''approver'', JStr t2), (''admin'', JStr t3)]"])
       (rule all)
qed

theorem output_roles_witness:
  "fst (main example_env example_world) = Inr () \<and>
   (\<exists>content kvs.
      files (snd (main example_env example_world)) ''test_tokens.json'' = Some content \<and>
      json_loads content = Some (JObj kvs) \<and>
      set (map fst kvs) = {''requester'', ''approver'', ''admin''})"
proof -
  have m: "fst (main example_env example_world) = Inr ()" by (rule example_env_main)
  have u: "set (map fst users) = {''requester'', ''approver'', ''admin''}" by (simp add: users_def)
  from output_roles[OF m] obtain content kvs where
    "files (snd (main example_env example_world)) ''test_tokens.json'' = Some content"
    "json_loads content = Some (JObj kvs)" "set (map fst kvs) = set (map fst users)"
    by (elim exE conjE)
  then have "files (snd (main example_env example_world)) ''test_tokens.json'' = Some content \<and>
      json_loads content = Some (JObj kvs) \<and>
      set (map fst kvs) = {''requester'', ''approver'', ''admin''}"
    unfolding u by (intro conjI)
  then have "\<exists>content kvs.
      files (snd (main example_env example_world)) ''test_tokens.json'' = Some content \<and>
      json_loads content = Some (JObj kvs) \<and>
      set (map fst kvs) = {''requester'', ''approver'', ''admin''}"
    by (intro exI)
  with m show ?thesis by (intro conjI)
qed

lemma length_users: "length users = 3"
  by (simp add: users_def)

lemma not_clock_ok_max: "\<not> clock_ok datetime_max"
  by (simp add: clock_ok_def timedelta_hours_def)

text \<open>
  C7. The file is written after the loop only. If the call of \<open>generate_token\<close> for some
  entry of the table fails, \<open>main\<close> ends with an exception and the files are what they were
  before the run: nothing is written to \<^verbatim>\<open>test_tokens.json\<close>, and a file that was there
  keeps its content.
\<close>

theorem no_write_on_failure:
  assumes "i < length users"
    and "generate_token (utcnow e i) (uuid4 e i) (profile_of (snd (users ! i))) = Inl err"
  shows "\<exists>err'. fst (main e w) = Inl err' \<and> files (snd (main e w)) = files w"
proof -
  from assms(1) have i: "i < 3" by (simp only: length_users)
  from assms(2) have "attempt e i = Inl err" by (simp only: attempt_def user_profile_def)
  with i show ?thesis by (rule main_fail)
qed

theorem no_write_on_failure_witness:
  "1 < length users \<and>
   generate_token (utcnow late_env 1) (uuid4 late_env 1) (profile_of (snd (users ! 1))) =
     Inl OverflowError \<and>
   (\<exists>err'. fst (main late_env example_world) = Inl err') \<and>
   files (snd (main late_env example_world)) ''test_tokens.json'' =
     Some (dumps_indent2 (JObj [(''guest'', JStr ''old-token'')]))"
proof -
  have l: "1 < length users" by (simp add: length_users)
  have "utcnow late_env 1 = datetime_max" by (simp add: late_env_def)
  then have g: "generate_token (utcnow late_env 1) (uuid4 late_env 1) (profile_of (snd (users ! 1))) =
     Inl OverflowError"
    using user_token_fail[OF not_clock_ok_max] by simp
  from no_write_on_failure[OF l g, of example_world] obtain err' where
    m: "fst (main late_env example_world) = Inl err'"
    and f: "files (snd (main late_env example_world)) = files example_world"
    by (elim exE conjE)
  have e: "\<exists>err'. fst (main late_env example_world) = Inl err'" using m by (rule exI)
  have o: "files (snd (main late_env example_world)) ''test_tokens.json'' =
     Some (dumps_indent2 (JObj [(''guest'', JStr ''old-token'')]))"
    unfolding f by (simp add: example_world_def)
  from l g e o show ?thesis by (intro conjI)
qed

lemma tokens_json_three:
  "tokens_json [(''requester'', t1), (''approver'', t2), (''admin'', t3)] =
   JObj [(''requester'', JStr t1), (''approver'', JStr t2), (''admin'', JStr t3)]"
  by (simp add: tokens_json_def)

text \<open>
  C8. A run that ends normally leaves at the path \<^verbatim>\<open>test_tokens.json\<close> the text
  \<^verbatim>\<open>json.dumps(tokens, indent=2)\<close> of the three tokens of this run, whatever was at that
  path before; every other path is untouched. Read back as JSON, the file is the object
  with the three roles and nothing else, so no key of an earlier file survives.
\<close>

theorem file_overwritten:
  assumes "fst (main e w) = Inr ()"
  shows "\<exists>t1 t2 t3 content.
           attempt e 0 = Inr t1 \<and> attempt e 1 = Inr t2 \<and> attempt e 2 = Inr t3 \<and>
           content = dumps_indent2
             (JObj [(''requester'', JStr t1), (''approver'', JStr t2), (''admin'', JStr t3)]) \<and>
           files (snd (main e w)) = (files w)(''test_tokens.json'' \<mapsto> content) \<and>
           json_loads content =
             Some (JObj [(''requester'', JStr t1), (''approver'', JStr t2), (''admin'', JStr t3)])"
proof -
  from assms obtain t1 t2 t3 where a: "attempt e 0 = Inr t1" "attempt e 1 = Inr t2" "attempt e 2 = Inr t3"
    and f: "files (snd (main e w)) =
           (files w)(''test_tokens.json'' \<mapsto>
              dumps_indent2 (tokens_json [(''requester'', t1), (''approver'', t2), (''admin'', t3)]))"
    by (rule main_Inr_effect)
  let ?j = "JObj [(''requester'', JStr t1), (''approver'', JStr t2), (''admin'', JStr t3)]"
  have "attempt e 0 = Inr t1 \<and> attempt e 1 = Inr t2 \<and> attempt e 2 = Inr t3 \<and>
        dumps_indent2 ?j = dumps_indent2 ?j \<and>
        files (snd (main e w)) = (files w)(''test_tokens.json'' \<mapsto> dumps_indent2 ?j) \<and>
        json_loads (dumps_indent2 ?j) = Some ?j"
    using a f[unfolded tokens_json_three] json_loads_dumps_indent2[of ?j] by (intro conjI) simp_all
  then show ?thesis by (intro exI)
qed

theorem file_overwritten_witness:
  "files example_world ''test_tokens.json'' =
     Some (dumps_indent2 (JObj [(''guest'', JStr ''old-token'')])) \<and>
   fst (main example_env example_world) = Inr () \<and>
   (\<exists>content kvs.
      files (snd (main example_env example_world)) ''test_tokens.json'' = Some content \<and>
      json_loads content = Some (JObj kvs) \<and>
      map fst kvs = [''requester'', ''approver'', ''admin''] \<and>
      map_of kvs ''guest'' = None)"
proof -
  have o: "files example_world ''test_tokens.json'' =
     Some (dumps_indent2 (JObj [(''guest'', JStr ''old-token'')]))"
    by (simp add: example_world_def)
  have m: "fst (main example_env example_world) = Inr ()" by (rule example_env_main)
  from file_overwritten[OF m] obtain t1 t2 t3 content where
    c: "content = dumps_indent2
             (JObj [(''requester'', JStr t1), (''approver'', JStr t2), (''admin'', JStr t3)])"
      "files (snd (main example_env example_world)) =
         (files example_world)(''test_tokens.json'' \<mapsto> content)"
      "json_loads content =
         Some (JObj [(''requester'', JStr t1), (''approver'', JStr t2), (''admin'', JStr t3)])"
    by (elim exE conjE)
  let ?kvs = "[(''requester'', JStr t1), (''approver'', JStr t2), (''admin'', JStr t3)]"
  have "files (snd (main example_env example_world)) ''test_tokens.json'' = Some content \<and>
      json_loads content = Some (JObj ?kvs) \<and>
      map fst ?kvs = [''requester'', ''approver'', ''admin''] \<and>
      map_of ?kvs ''guest'' = None"
    using c(3) unfolding c(2) by simp
  then have "\<exists>content kvs.
      files (snd (main example_env example_world)) ''test_tokens.json'' = Some content \<and>
      json_loads content = Some (JObj kvs) \<and>
      map fst kvs = [''requester'', ''approver'', ''admin''] \<and>
      map_of kvs ''guest'' = None"
    by (intro exI)
  with o m show ?thesis by (intro conjI)
qed

lemma output_lines:
  "header_lines @ role_block 0 t1 @ role_block 1 t2 @ role_block 2 t3 @ footer_lines t1 t2 t3 =
     [''GA Ticketing System - JWT Token Generator'',
      replicate 50 CHR ''='',
      [],
      ''REQUESTER USER:'',
      ''  Name: John Requester'',
      ''  Email: john.requester@company.com'',
      ''  Role: requester'',
      ''  Token: '' @ t1,
      [],
      ''APPROVER USER:'',
      ''  Name: Jane Approver'',
      ''  Email: jane.approver@company.com'',
      ''  Role: approver'',
      ''  Token: '' @ t2,
      [],
      ''ADMIN USER:'',
      ''  Name: Admin User'',
      ''  Email: admin@company.com'',
      ''  Role: admin'',
      ''  Token: '' @ t3,
      [],
      ''Tokens saved to: test_tokens.json'',
      [],
      ''Usage examples:'',
      ''export REQUESTER_TOKEN='' @ [dquote] @ t1 @ [dquote],
      ''export APPROVER_TOKEN='' @ [dquote] @ t2 @ [dquote],
      ''export ADMIN_TOKEN='' @ [dquote] @ t3 @ [dquote]]"
  by (simp add: header_lines_def role_block_def footer_lines_def users_def Let_def upper_roles)

text \<open>
  C10. In a run that ends normally there are three tokens \<open>t1\<close>, \<open>t2\<close>, \<open>t3\<close> such that the
  file, read back as JSON, maps \<^verbatim>\<open>requester\<close>, \<^verbatim>\<open>approver\<close> and \<^verbatim>\<open>admin\<close> to them, the
  \<^verbatim>\<open>Token:\<close> line of each role's block on standard output shows the token of that role, and
  the three \<^verbatim>\<open>export\<close> lines carry \<open>t1\<close>, \<open>t2\<close> and \<open>t3\<close> in this order. The run prints
  exactly the 27 lines below.
\<close>

theorem channels_consistent:
  assumes "fst (main e w) = Inr ()"
  shows "\<exists>t1 t2 t3 content.
           files (snd (main e w)) ''test_tokens.json'' = Some content \<and>
           json_loads content =
             Some (JObj [(''requester'', JStr t1), (''approver'', JStr t2), (''admin'', JStr t3)]) \<and>
           stdout (snd (main e w)) = stdout w @
             [''GA Ticketing System - JWT Token Generator'',
              replicate 50 CHR ''='',
              [],
              ''REQUESTER USER:'',
              ''  Name: John Requester'',
              ''  Email: john.requester@company.com'',
              ''  Role: requester'',
              ''  Token: '' @ t1,
              [],
              ''APPROVER USER:'',
              ''  Name: Jane Approver'',
              ''  Email: jane.approver@company.com'',
              ''  Role: approver'',
              ''  Token: '' @ t2,
              [],
              ''ADMIN USER:'',
              ''  Name: Admin User'',
              ''  Email: admin@company.com'',
              ''  Role: admin'',
              ''  Token: '' @ t3,
              [],
              ''Tokens saved to: test_tokens.json'',
              [],
              ''Usage examples:'',
              ''export REQUESTER_TOKEN='' @ [dquote] @ t1 @ [dquote],
              ''export APPROVER_TOKEN='' @ [dquote] @ t2 @ [dquote],
              ''export ADMIN_TOKEN='' @ [dquote] @ t3 @ [dquote]]"
proof -
  from assms obtain t1 t2 t3 where
    f: "files (snd (main e w)) =
           (files w)(''test_tokens.json'' \<mapsto>
              dumps_indent2 (tokens_json [(''requester'', t1), (''approver'', t2), (''admin'', t3)]))"
    and s: "stdout (snd (main e w)) =
           stdout w @ header_lines @ role_block 0 t1 @ role_block 1 t2 @ role_block 2 t3 @
           footer_lines t1 t2 t3"
    by (rule main_Inr_effect)
  let ?j = "JObj [(''requester'', JStr t1), (''approver'', JStr t2), (''admin'', JStr t3)]"
  have k: "tokens_json [(''requester'', t1), (''approver'', t2), (''admin'', t3)] = ?j"
    by (simp add: tokens_json_def)
  have c: "files (snd (main e w)) ''test_tokens.json'' = Some (dumps_indent2 ?j)"
    unfolding f k by simp
  have j: "json_loads (dumps_indent2 ?j) = Some ?j" by (rule json_loads_dumps_indent2)
  note s' = s[unfolded output_lines]
  from c j s' show ?thesis by (intro exI[of _ t1] exI[of _ t2] exI[of _ t3] exI[of _ "dumps_indent2 ?j"] conjI)
qed

theorem channels_consistent_witness:
  "fst (main example_env example_world) = Inr () \<and>
   (\<exists>t1 t2 t3 content.
      files (snd (main example_env example_world)) ''test_tokens.json'' = Some content \<and>
      json_loads content =
        Some (JObj [(''requester'', JStr t1), (''approver'', JStr t2), (''admin'', JStr t3)]) \<and>
      stdout (snd (main example_env example_world)) ! 7 = ''  Token: '' @ t1 \<and>
      stdout (snd (main example_env example_world)) ! 13 = ''  Token: '' @ t2 \<and>
      stdout (snd (main example_env example_world)) ! 19 = ''  Token: '' @ t3 \<and>
      stdout (snd (main example_env example_world)) ! 24 =
        ''export REQUESTER_TOKEN='' @ [dquote] @ t1 @ [dquote] \<and>
      stdout (snd (main example_env example_world)) ! 25 =
        ''export APPROVER_TOKEN='' @ [dquote] @ t2 @ [dquote] \<and>
      stdout (snd (main example_env example_world)) ! 26 =
        ''export ADMIN_TOKEN='' @ [dquote] @ t3 @ [dquote])"
proof -
  have m: "fst (main example_env example_world) = Inr ()" by (rule example_env_main)
  have e: "stdout example_world = []" by (simp add: example_world_def)
  from channels_consistent[OF m] obtain t1 t2 t3 content where
    c: "files (snd (main example_env example_world)) ''test_tokens.json'' = Some content"
    and j: "json_loads content =
        Some (JObj [(''requester'', JStr t1), (''approver'', JStr t2), (''admin'', JStr t3)])"
    and s: "stdout (snd (main example_env example_world)) = stdout example_world @
             [''GA Ticketing System - JWT Token Generator'',
              replicate 50 CHR ''='',
              [],
              ''REQUESTER USER:'',
              ''  Name: John Requester'',
              ''  Email: john.requester@company.com'',
              ''  Role: requester'',
              ''  Token: '' @ t1,
              [],
              ''APPROVER USER:'',
              ''  Name: Jane Approver'',
              ''  Email: jane.approver@company.com'',
              ''  Role: approver'',
              ''  Token: '' @ t2,
              [],
              ''ADMIN USER:'',
              ''  Name: Admin User'',
              ''  Email: admin@company.com'',
              ''  Role: admin'',
              ''  Token: '' @ t3,
              [],
              ''Tokens saved to: test_tokens.json'',
              [],
              ''Usage examples:'',
              ''export REQUESTER_TOKEN='' @ [dquote] @ t1 @ [dquote],
              ''export APPROVER_TOKEN='' @ [dquote] @ t2 @ [dquote],
              ''export ADMIN_TOKEN='' @ [dquote] @ t3 @ [dquote]]"
    by (elim exE conjE)
  have n: "stdout (snd (main example_env example_world)) ! 7 = ''  Token: '' @ t1"
    "stdout (snd (main example_env example_world)) ! 13 = ''  Token: '' @ t2"
    "stdout (snd (main example_env example_world)) ! 19 = ''  Token: '' @ t3"
    "stdout (snd (main example_env example_world)) ! 24 =
        ''export REQUESTER_TOKEN='' @ [dquote] @ t1 @ [dquote]"
    "stdout (snd (main example_env example_world)) ! 25 =
        ''export APPROVER_TOKEN='' @ [dquote] @ t2 @ [dquote]"
    "stdout (snd (main example_env example_world)) ! 26 =
        ''export ADMIN_TOKEN='' @ [dquote] @ t3 @ [dquote]"
    unfolding s e by simp_all
  from c j n have "\<exists>t1 t2 t3 content.
      files (snd (main example_env example_world)) ''test_tokens.json'' = Some content \<and>
      json_loads content =
        Some (JObj [(''requester'', JStr t1), (''approver'', JStr t2), (''admin'', JStr t3)]) \<and>
      stdout (snd (main example_env example_world)) ! 7 = ''  Token: '' @ t1 \<and>
      stdout (snd (main example_env example_world)) ! 13 = ''  Token: '' @ t2 \<and>
      stdout (snd (main example_env example_world)) ! 19 = ''  Token: '' @ t3 \<and>
      stdout (snd (main example_env example_world)) ! 24 =
        ''export REQUESTER_TOKEN='' @ [dquote] @ t1 @ [dquote] \<and>
      stdout (snd (main example_env example_world)) ! 25 =
        ''export APPROVER_TOKEN='' @ [dquote] @ t2 @ [dquote] \<and>
      stdout (snd (main example_env example_world)) ! 26 =
        ''export ADMIN_TOKEN='' @ [dquote] @ t3 @ [dquote]"
    by (intro exI[of _ t1] exI[of _ t2] exI[of _ t3] exI[of _ content] conjI)
  with m show ?thesis by (intro conjI)
qed

lemma run_script_without_jwt:
  "\<not> jwt_installed e \<Longrightarrow> run_script e w = (Uncaught ImportError, w)"
  by (simp add: run_script_def import_jwt_def)

text \<open>
  C4. Without PyJWT the script stops at its first \<^verbatim>\<open>import jwt\<close> (line 7), which is outside
  any \<^verbatim>\<open>try\<close>: the \<^verbatim>\<open>ImportError\<close> is uncaught, the interpreter ends with status 1, and
  the guarded import of lines 104 to 109, which would print the two lines of advice, is
  never reached. Nothing is printed on standard output and no token is made; in
  particular the line \<^verbatim>\<open>Install it with: pip install PyJWT\<close> does not appear.
\<close>

theorem missing_library_no_message:
  "run_script env_without_jwt example_world = (Uncaught ImportError, example_world) \<and>
   exit_status (fst (run_script env_without_jwt example_world)) = 1 \<and>
   stdout (snd (run_script env_without_jwt example_world)) = [] \<and>
   ''Install it with: pip install PyJWT'' \<notin> set (stdout (snd (run_script env_without_jwt example_world)))"
proof -
  have "\<not> jwt_installed env_without_jwt" by (simp add: env_without_jwt_def)
  then have r: "run_script env_without_jwt example_world = (Uncaught ImportError, example_world)"
    by (rule run_script_without_jwt)
  show ?thesis unfolding r by (simp add: example_world_def)
qed

end
